theory Spec2Isabelle
  imports Complex_Main
begin

section \<open>Numeric arrays\<close>

text \<open>
  Coordinates are modelled as real numbers: the arithmetic of \<^verbatim>\<open>Mesh.py\<close> is
  followed operation by operation, in exact arithmetic (no rounding, no overflow). A
  later section repeats the lines with the rounding of binary64 after every operation.
  The one non-finite value the source can produce is kept: dividing the zero vector by
  its zero norm gives an array of NaN in numpy (a warning, not an exception), here the
  value \<open>Nan\<close>.
\<close>

type_synonym vec = "real \<times> real \<times> real"

datatype farray = Nan | Vec vec

fun vsub :: "vec \<Rightarrow> vec \<Rightarrow> vec" where
  "vsub (a, b, c) (x, y, z) = (a - x, b - y, c - z)"

fun vadd :: "vec \<Rightarrow> vec \<Rightarrow> vec" where
  "vadd (a, b, c) (x, y, z) = (a + x, b + y, c + z)"

fun vneg :: "vec \<Rightarrow> vec" where
  "vneg (a, b, c) = (- a, - b, - c)"

fun smul :: "real \<Rightarrow> vec \<Rightarrow> vec" where
  "smul k (a, b, c) = (k * a, k * b, k * c)"

fun vdiv :: "vec \<Rightarrow> real \<Rightarrow> vec" where
  "vdiv (a, b, c) k = (a / k, b / k, c / k)"

fun np_dot :: "vec \<Rightarrow> vec \<Rightarrow> real" where
  "np_dot (a, b, c) (x, y, z) = a * x + b * y + c * z"

fun np_cross :: "vec \<Rightarrow> vec \<Rightarrow> vec" where
  "np_cross (a, b, c) (x, y, z) = (b * z - c * y, c * x - a * z, a * y - b * x)"

definition linalg_norm :: "vec \<Rightarrow> real" where
  "linalg_norm v = sqrt (np_dot v v)"

text \<open>\<^verbatim>\<open>n / np.linalg.norm(n)\<close>: the norm is zero only for the zero vector, and
  \<open>0 / 0\<close> is NaN in every component.\<close>

definition unit_vec :: "vec \<Rightarrow> farray" where
  "unit_vec n = (if linalg_norm n = 0 then Nan else Vec (vdiv n (linalg_norm n)))"

text \<open>\<^verbatim>\<open>np.sum(rows, axis=0)\<close> over rows that are each finite or all NaN: one NaN row
  makes the sum NaN. \<open>finite_rows\<close> gives the rows when all of them are finite.\<close>

fun finite_rows :: "farray list \<Rightarrow> vec list option" where
  "finite_rows [] = Some []"
| "finite_rows (Nan # rs) = None"
| "finite_rows (Vec v # rs) = (case finite_rows rs of None \<Rightarrow> None | Some vs \<Rightarrow> Some (v # vs))"

fun np_sum :: "vec list \<Rightarrow> vec" where
  "np_sum [] = (0, 0, 0)"
| "np_sum (v # vs) = vadd v (np_sum vs)"

section \<open>The mesh\<close>

datatype error = IndexError | UnconnectedVertex | UnboundLocalError

type_synonym triangle = "nat \<times> nat \<times> nat"

record mesh =
  verts :: "vec list"
  connectivity :: "triangle list"
  normals :: "farray list"
  node_to_tri :: "nat \<rightharpoonup> nat list"
  tree :: "vec list"

text \<open>\<^verbatim>\<open>collections.defaultdict(list)\<close>: reading a missing key stores the empty list
  under that key and returns it.\<close>

definition defaultdict_get :: "(nat \<rightharpoonup> nat list) \<Rightarrow> nat \<Rightarrow> nat list \<times> (nat \<rightharpoonup> nat list)" where
  "defaultdict_get d k = (case d k of None \<Rightarrow> ([], d(k \<mapsto> [])) | Some ts \<Rightarrow> (ts, d))"

text \<open>\<^verbatim>\<open>self.node_to_tri[k].append(i)\<close>\<close>

definition append_tri :: "(nat \<rightharpoonup> nat list) \<Rightarrow> nat \<Rightarrow> nat \<Rightarrow> (nat \<rightharpoonup> nat list)" where
  "append_tri d k i = (case defaultdict_get d k of (ts, d') \<Rightarrow> d'(k \<mapsto> ts @ [i]))"

text \<open>The incident triangles of a vertex as a reader sees them, without the insertion.\<close>

definition tris_of :: "(nat \<rightharpoonup> nat list) \<Rightarrow> nat \<Rightarrow> nat list" where
  "tris_of d k = (case d k of None \<Rightarrow> [] | Some ts \<Rightarrow> ts)"

definition raw_normal :: "vec list \<Rightarrow> triangle \<Rightarrow> vec" where
  "raw_normal vs tr = (case tr of (a, b, c) \<Rightarrow>
     np_cross (vsub (vs ! b) (vs ! a)) (vsub (vs ! c) (vs ! a)))"

text \<open>
  The body of the loop of \<^verbatim>\<open>Mesh.__init__\<close> over the triangles, from row \<open>i\<close> on.
  Vertex indices are naturals (numpy's wrap-around of negative indices is outside the
  model); reading \<^verbatim>\<open>self.verts\<close> at an index past the end raises \<^verbatim>\<open>IndexError\<close>.
\<close>

fun init_loop :: "vec list \<Rightarrow> triangle list \<Rightarrow> nat \<Rightarrow> (nat \<rightharpoonup> nat list) \<times> farray list
    \<Rightarrow> error + (nat \<rightharpoonup> nat list) \<times> farray list" where
  "init_loop vs [] i st = Inr st"
| "init_loop vs ((a, b, c) # cs) i (d, ns) =
     (let d' = append_tri (append_tri (append_tri d a i) b i) c i in
      if b < length vs \<and> a < length vs \<and> c < length vs
      then init_loop vs cs (Suc i) (d', ns[i := unit_vec (raw_normal vs (a, b, c))])
      else Inl IndexError)"

definition Mesh_init :: "vec list \<Rightarrow> triangle list \<Rightarrow> error + mesh" where
  "Mesh_init vs cs =
     (case init_loop vs cs 0 (Map.empty, replicate (length cs) (Vec (0, 0, 0))) of
        Inl e \<Rightarrow> Inl e
      | Inr (d, ns) \<Rightarrow>
          Inr \<lparr>verts = vs, connectivity = cs, normals = ns, node_to_tri = d, tree = vs\<rparr>)"

section \<open>The spatial index\<close>

definition dist2 :: "vec \<Rightarrow> vec \<Rightarrow> real" where
  "dist2 p q = np_dot (vsub p q) (vsub p q)"

fun nearest_from :: "vec \<Rightarrow> vec list \<Rightarrow> nat \<Rightarrow> nat \<Rightarrow> real \<Rightarrow> nat" where
  "nearest_from p [] i best bd = best"
| "nearest_from p (v # vs) i best bd =
     (if dist2 p v < bd then nearest_from p vs (Suc i) i (dist2 p v)
      else nearest_from p vs (Suc i) best bd)"

text \<open>
  Modelled from the spec: \<^verbatim>\<open>scipy.spatial.cKDTree.query\<close> is a library routine, not part
  of the repository. Section 4.2: the single closest vertex in Euclidean distance, ties
  broken by index (the lowest index here; squared distances order points as distances
  do). On an index over no points the library reports a missing neighbour as the index
  \<open>n = 0\<close>.
\<close>

fun kd_query :: "vec list \<Rightarrow> vec \<Rightarrow> nat" where
  "kd_query [] p = 0"
| "kd_query (v # vs) p = nearest_from p vs 1 0 (dist2 p v)"

section \<open>Projection\<close>

text \<open>Lines 97 to 99: the point projected to the plane of the vertex normal.\<close>

definition pre_project :: "vec \<Rightarrow> vec \<Rightarrow> vec \<Rightarrow> vec" where
  "pre_project point pv vn = vsub point (smul (np_dot (vsub point pv) vn) vn)"

text \<open>Lines 104 to 107: the signed distance of \<open>pre\<close> to the plane of a triangle.\<close>

definition plane_dist :: "vec \<Rightarrow> vec \<Rightarrow> vec \<Rightarrow> real" where
  "plane_dist pre pa n = np_dot (vsub pre pa) n"

text \<open>Line 119.\<close>

definition tri_project :: "vec \<Rightarrow> real \<Rightarrow> vec \<Rightarrow> vec" where
  "tri_project pre d n = vsub pre (smul d n)"

text \<open>
  Lines 121 to 141: the acceptance test of one candidate, given its three corners.
  A zero \<^verbatim>\<open>np.linalg.norm(vxu)\<close> makes \<open>r\<close> and \<open>t\<close> infinite or NaN in numpy, and
  every comparison with them false.
\<close>

definition in_triangle :: "vec \<Rightarrow> vec \<Rightarrow> vec \<Rightarrow> vec \<Rightarrow> bool" where
  "in_triangle pa pb pc projected_point =
     (let u = vsub pb pa;
          v = vsub pc pa;
          w = vsub projected_point pa;
          vxw = np_cross v w;
          vxu = np_cross v u;
          uxw = np_cross u w;
          sign_r = np_dot vxw vxu;
          sign_t = np_dot uxw (vneg vxu)
      in if sign_r \<ge> 0 \<and> sign_t \<ge> 0
         then (if linalg_norm vxu = 0 then False
               else (let r = linalg_norm vxw / linalg_norm vxu;
                         t = linalg_norm uxw / linalg_norm vxu
                     in r \<le> 1 \<and> t \<le> 1 \<and> r + t \<le> 1001 / 1000))
         else False)"

text \<open>
  Lines 101 to 108: the list \<^verbatim>\<open>CPP\<close>, one entry for each candidate, in the order of
  \<^verbatim>\<open>triangles\<close>; \<open>ns\<close> are the candidates' normals.
\<close>

fun cpp_loop :: "mesh \<Rightarrow> vec \<Rightarrow> nat list \<Rightarrow> vec list \<Rightarrow> error + real list" where
  "cpp_loop m pre [] ns = Inr []"
| "cpp_loop m pre (tri # ts) ns =
     (if tri < length (connectivity m) \<and> fst (connectivity m ! tri) < length (verts m)
      then (case cpp_loop m pre ts (tl ns) of
              Inl e \<Rightarrow> Inl e
            | Inr ds \<Rightarrow> Inr (plane_dist pre (verts m ! fst (connectivity m ! tri)) (hd ns) # ds))
      else Inl IndexError)"

text \<open>
  Line 112: \<^verbatim>\<open>np.abs(CPP).argsort()\<close>, the positions of \<^verbatim>\<open>CPP\<close> by ascending absolute
  value. Equal keys keep their order here, as in the insertion sort that numpy's default
  sort runs on up to 16 entries; numpy itself leaves the order of equal keys open.
\<close>

definition argsort_abs :: "real list \<Rightarrow> nat list" where
  "argsort_abs cpp = sort_key (\<lambda>k. \<bar>cpp ! k\<bar>) [0..<length cpp]"

text \<open>
  Lines 115 to 145: the candidates in sorted order. \<^verbatim>\<open>projected_point\<close> is assigned in
  every round, so after the loop it holds the value of the last round run; with no round
  at all the name would be unbound.
\<close>

fun scan :: "mesh \<Rightarrow> vec \<Rightarrow> nat list \<Rightarrow> vec list \<Rightarrow> real list \<Rightarrow> nat list
    \<Rightarrow> error + vec \<times> int" where
  "scan m pre triangles ns cpp [] = Inl UnboundLocalError"
| "scan m pre triangles ns cpp (k # order) =
     (let i = triangles ! k;
          projected_point = tri_project pre (cpp ! k) (ns ! k)
      in case connectivity m ! i of (a, b, c) \<Rightarrow>
           if b < length (verts m) \<and> c < length (verts m)
           then (if in_triangle (verts m ! a) (verts m ! b) (verts m ! c) projected_point
                 then Inr (projected_point, int i)
                 else if order = [] then Inr (projected_point, - 1)
                 else scan m pre triangles ns cpp order)
           else Inl IndexError)"

text \<open>
  The same lines when the vertex normal is NaN: \<^verbatim>\<open>pre_projected_point\<close>, \<^verbatim>\<open>CPP\<close> and
  every \<^verbatim>\<open>projected_point\<close> are NaN, both sign tests are false, and every candidate is
  visited. Only the index reads can still fail.
\<close>

definition nan_rounds :: "mesh \<Rightarrow> nat list \<Rightarrow> error + farray \<times> int" where
  "nan_rounds m triangles =
     (if list_all (\<lambda>tri. tri < length (connectivity m) \<and>
            (case connectivity m ! tri of (a, b, c) \<Rightarrow>
               a < length (verts m) \<and> b < length (verts m) \<and> c < length (verts m))) triangles
      then Inr (Nan, - 1)
      else Inl IndexError)"

text \<open>Lines 92 to 145, for a connected nearest vertex \<open>node\<close>.\<close>

definition project_from :: "mesh \<Rightarrow> nat \<Rightarrow> nat list \<Rightarrow> vec \<Rightarrow> error + farray \<times> int" where
  "project_from m node triangles point =
     (if list_all (\<lambda>tri. tri < length (normals m)) triangles
      then
        if node < length (verts m)
        then
          (case finite_rows (map (\<lambda>tri. normals m ! tri) triangles) of
             None \<Rightarrow> nan_rounds m triangles
           | Some ns \<Rightarrow>
               (case unit_vec (np_sum ns) of
                  Nan \<Rightarrow> nan_rounds m triangles
                | Vec vertex_normal \<Rightarrow>
                    (let pre = pre_project point (verts m ! node) vertex_normal in
                     case cpp_loop m pre triangles ns of
                       Inl e \<Rightarrow> Inl e
                     | Inr cpp \<Rightarrow>
                         (case scan m pre triangles ns cpp (argsort_abs cpp) of
                            Inl e \<Rightarrow> Inl e
                          | Inr (pp, intriangle) \<Rightarrow> Inr (Vec pp, intriangle)))))
        else Inl IndexError
      else Inl IndexError)"

text \<open>
  \<^verbatim>\<open>Mesh.project_new_point\<close>. The mesh after the call is returned with the result: the
  read of \<^verbatim>\<open>self.node_to_tri[node]\<close> goes through the defaultdict.
\<close>

definition project_new_point :: "mesh \<Rightarrow> vec \<Rightarrow> mesh \<times> (error + farray \<times> int)" where
  "project_new_point m point =
     (let node = kd_query (tree m) point in
      case defaultdict_get (node_to_tri m) node of (triangles, d) \<Rightarrow>
        (m\<lparr>node_to_tri := d\<rparr>,
         if length triangles = 0 then Inl UnconnectedVertex
         else project_from m node triangles point))"

section \<open>Reference values\<close>

text \<open>The vertex indices of a triangle, and the rows \<open>i, i + 1, \<dots>\<close> of a connectivity
  array that hold the vertex \<open>v\<close>, one entry for each occurrence.\<close>


fun tri_nodes :: "triangle \<Rightarrow> nat list" where
  "tri_nodes (a, b, c) = [a, b, c]"

fun incident :: "triangle list \<Rightarrow> nat \<Rightarrow> nat \<Rightarrow> nat list" where
  "incident [] i v = []"
| "incident (tr # cs) i v = map (\<lambda>_. i) (filter (\<lambda>k. k = v) (tri_nodes tr)) @ incident cs (Suc i) v"


text \<open>The planar quad of two triangles, and the mesh that the constructor builds from it.\<close>

definition quad_verts :: "vec list" where
  "quad_verts = [(0, 0, 0), (1, 0, 0), (1, 1, 0), (0, 1, 0)]"

definition quad_conn :: "triangle list" where
  "quad_conn = [(0, 1, 2), (0, 2, 3)]"

definition quad_mesh :: mesh where
  "quad_mesh = \<lparr>verts = quad_verts, connectivity = quad_conn,
     normals = [Vec (0, 0, 1), Vec (0, 0, 1)],
     node_to_tri = map_of [(0, [0, 1]), (1, [0]), (2, [0, 1]), (3, [1])],
     tree = quad_verts\<rparr>"

text \<open>The acceptance test of the candidate at position \<open>k\<close> of \<^verbatim>\<open>triangles\<close>, as the loop
  runs it, and the index checks that the reads of one candidate need.\<close>

definition accepts :: "mesh \<Rightarrow> vec \<Rightarrow> nat list \<Rightarrow> vec list \<Rightarrow> real list \<Rightarrow> nat \<Rightarrow> bool" where
  "accepts m pre triangles ns cpp k =
     (case connectivity m ! (triangles ! k) of (a, b, c) \<Rightarrow>
        in_triangle (verts m ! a) (verts m ! b) (verts m ! c) (tri_project pre (cpp ! k) (ns ! k)))"

definition corners_ok :: "mesh \<Rightarrow> nat \<Rightarrow> bool" where
  "corners_ok m tri = (tri < length (connectivity m) \<and>
     list_all (\<lambda>k. k < length (verts m)) (tri_nodes (connectivity m ! tri)))"

text \<open>Lines 93 to 95: the normalised sum of the candidates' normals.\<close>

definition vertex_normal :: "mesh \<Rightarrow> nat list \<Rightarrow> farray" where
  "vertex_normal m triangles =
     (case finite_rows (map (\<lambda>tri. normals m ! tri) triangles) of
        None \<Rightarrow> Nan
      | Some ns \<Rightarrow> unit_vec (np_sum ns))"

text \<open>A triangle with collinear corners, and a mesh with a vertex that no triangle uses.\<close>

definition sliver_verts :: "vec list" where
  "sliver_verts = [(0, 0, 0), (1, 0, 0), (2, 0, 0)]"

definition sliver_conn :: "triangle list" where
  "sliver_conn = [(0, 1, 2)]"

definition sliver_mesh :: mesh where
  "sliver_mesh = \<lparr>verts = sliver_verts, connectivity = sliver_conn, normals = [Nan],
     node_to_tri = map_of [(0, [0]), (1, [0]), (2, [0])], tree = sliver_verts\<rparr>"

definition loose_verts :: "vec list" where
  "loose_verts = [(0, 0, 0), (1, 0, 0), (0, 1, 0), (5, 5, 5)]"

definition loose_conn :: "triangle list" where
  "loose_conn = [(0, 1, 2)]"

definition loose_mesh :: mesh where
  "loose_mesh = \<lparr>verts = loose_verts, connectivity = loose_conn, normals = [Vec (0, 0, 1)],
     node_to_tri = map_of [(0, [0]), (1, [0]), (2, [0])], tree = loose_verts\<rparr>"

text \<open>Every vertex index of the connectivity array is a row of the vertex array.\<close>

definition indices_ok :: "vec list \<Rightarrow> triangle list \<Rightarrow> bool" where
  "indices_ok vs cs = list_all (\<lambda>tr. list_all (\<lambda>k. k < length vs) (tri_nodes tr)) cs"

text \<open>
  The acceptance test in the words of the specification (section 4.3, step 7): both signs
  non-negative, \<open>r \<le> 1\<close>, \<open>t_param \<le> 1\<close> and \<open>r + t_param \<le> 1.001\<close>, with the quotients
  as HOL computes them. It is compared with \<open>in_triangle\<close> below.
\<close>

definition spec_accept :: "vec \<Rightarrow> vec \<Rightarrow> vec \<Rightarrow> vec \<Rightarrow> bool" where
  "spec_accept pa pb pc proj_t =
     (let u = vsub pb pa;
          v_e = vsub pc pa;
          w = vsub proj_t pa;
          vxw = np_cross v_e w;
          vxu = np_cross v_e u;
          uxw = np_cross u w;
          sign_r = np_dot vxw vxu;
          sign_t = np_dot uxw (vneg vxu);
          r = linalg_norm vxw / linalg_norm vxu;
          t_param = linalg_norm uxw / linalg_norm vxu
      in sign_r \<ge> 0 \<and> sign_t \<ge> 0 \<and> r \<le> 1 \<and> t_param \<le> 1 \<and> r + t_param \<le> 1001 / 1000)"

definition spec_accepts :: "mesh \<Rightarrow> vec \<Rightarrow> nat list \<Rightarrow> vec list \<Rightarrow> real list \<Rightarrow> nat \<Rightarrow> bool" where
  "spec_accepts m pre triangles ns cpp k =
     (case connectivity m ! (triangles ! k) of (a, b, c) \<Rightarrow>
        spec_accept (verts m ! a) (verts m ! b) (verts m ! c) (tri_project pre (cpp ! k) (ns ! k)))"

text \<open>A square pyramid with apex \<open>(0,0,3)\<close>: four faces around vertex 0, with the unit
  normals that the constructor computes for them.\<close>

definition pyramid_verts :: "vec list" where
  "pyramid_verts = [(0, 0, 3), (4, - 4, 0), (4, 4, 0), (- 4, 4, 0), (- 4, - 4, 0)]"

definition pyramid_conn :: "triangle list" where
  "pyramid_conn = [(0, 1, 2), (0, 2, 3), (0, 3, 4), (0, 4, 1)]"

definition pyramid_normals :: "vec list" where
  "pyramid_normals = [(3 / 5, 0, 4 / 5), (0, 3 / 5, 4 / 5), (- 3 / 5, 0, 4 / 5), (0, - 3 / 5, 4 / 5)]"

definition pyramid_mesh :: mesh where
  "pyramid_mesh = \<lparr>verts = pyramid_verts, connectivity = pyramid_conn,
     normals = map Vec pyramid_normals,
     node_to_tri = map_of [(0, [0, 1, 2, 3]), (1, [0, 3]), (2, [0, 1]), (3, [1, 2]), (4, [2, 3])],
     tree = pyramid_verts\<rparr>"

section \<open>The same lines in binary64 arithmetic\<close>

text \<open>
  \<open>fl\<close> rounds a real number to the nearest number with a 53-bit significand, ties to the
  even significand: the rounding of every binary64 operation. The exponent is unbounded,
  so overflow and underflow are outside the model.
\<close>

definition rne :: "real \<Rightarrow> int" where
  "rne y = (if y - of_int \<lfloor>y\<rfloor> < 1 / 2 then \<lfloor>y\<rfloor>
            else if 1 / 2 < y - of_int \<lfloor>y\<rfloor> then \<lfloor>y\<rfloor> + 1
            else if even \<lfloor>y\<rfloor> then \<lfloor>y\<rfloor> else \<lfloor>y\<rfloor> + 1)"

definition fl :: "real \<Rightarrow> real" where
  "fl x = (if x = 0 then 0
           else of_int (rne (x / 2 powr (of_int \<lfloor>log 2 \<bar>x\<bar>\<rfloor> - 52))) * 2 powr (of_int \<lfloor>log 2 \<bar>x\<bar>\<rfloor> - 52))"

text \<open>
  The definitions of the sections above once more, with a rounding function \<open>rnd\<close> applied to
  the result of every arithmetic operation, as numpy computes it: each product, sum,
  difference, quotient and square root is rounded once; \<^verbatim>\<open>np.dot\<close> of two vectors of three
  entries is summed from left to right, with no fused multiply-add; \<^verbatim>\<open>np.cross\<close> rounds
  both products and their difference; \<^verbatim>\<open>np.linalg.norm\<close> is the square root of the dot
  product; \<^verbatim>\<open>np.sum\<close> over the rows starts from the first row; the literal \<^verbatim>\<open>1.001\<close> is
  the rounded value. With the identity for \<open>rnd\<close> these are the definitions above; with
  \<open>fl\<close> they are the arithmetic of the source.
\<close>

fun vsub_r :: "(real \<Rightarrow> real) \<Rightarrow> vec \<Rightarrow> vec \<Rightarrow> vec" where
  "vsub_r rnd (a, b, c) (x, y, z) = (rnd (a - x), rnd (b - y), rnd (c - z))"

fun vadd_r :: "(real \<Rightarrow> real) \<Rightarrow> vec \<Rightarrow> vec \<Rightarrow> vec" where
  "vadd_r rnd (a, b, c) (x, y, z) = (rnd (a + x), rnd (b + y), rnd (c + z))"

fun smul_r :: "(real \<Rightarrow> real) \<Rightarrow> real \<Rightarrow> vec \<Rightarrow> vec" where
  "smul_r rnd k (a, b, c) = (rnd (k * a), rnd (k * b), rnd (k * c))"

fun vdiv_r :: "(real \<Rightarrow> real) \<Rightarrow> vec \<Rightarrow> real \<Rightarrow> vec" where
  "vdiv_r rnd (a, b, c) k = (rnd (a / k), rnd (b / k), rnd (c / k))"

fun np_dot_r :: "(real \<Rightarrow> real) \<Rightarrow> vec \<Rightarrow> vec \<Rightarrow> real" where
  "np_dot_r rnd (a, b, c) (x, y, z) = rnd (rnd (rnd (a * x) + rnd (b * y)) + rnd (c * z))"

fun np_cross_r :: "(real \<Rightarrow> real) \<Rightarrow> vec \<Rightarrow> vec \<Rightarrow> vec" where
  "np_cross_r rnd (a, b, c) (x, y, z) =
     (rnd (rnd (b * z) - rnd (c * y)), rnd (rnd (c * x) - rnd (a * z)), rnd (rnd (a * y) - rnd (b * x)))"

definition linalg_norm_r :: "(real \<Rightarrow> real) \<Rightarrow> vec \<Rightarrow> real" where
  "linalg_norm_r rnd v = rnd (sqrt (np_dot_r rnd v v))"

definition unit_vec_r :: "(real \<Rightarrow> real) \<Rightarrow> vec \<Rightarrow> farray" where
  "unit_vec_r rnd n =
     (if linalg_norm_r rnd n = 0 then Nan else Vec (vdiv_r rnd n (linalg_norm_r rnd n)))"

fun np_sum_r :: "(real \<Rightarrow> real) \<Rightarrow> vec list \<Rightarrow> vec" where
  "np_sum_r rnd [] = (0, 0, 0)"
| "np_sum_r rnd (v # vs) = foldl (vadd_r rnd) v vs"

definition raw_normal_r :: "(real \<Rightarrow> real) \<Rightarrow> vec list \<Rightarrow> triangle \<Rightarrow> vec" where
  "raw_normal_r rnd vs tr = (case tr of (a, b, c) \<Rightarrow>
     np_cross_r rnd (vsub_r rnd (vs ! b) (vs ! a)) (vsub_r rnd (vs ! c) (vs ! a)))"

fun init_loop_r :: "(real \<Rightarrow> real) \<Rightarrow> vec list \<Rightarrow> triangle list \<Rightarrow> nat
    \<Rightarrow> (nat \<rightharpoonup> nat list) \<times> farray list \<Rightarrow> error + (nat \<rightharpoonup> nat list) \<times> farray list" where
  "init_loop_r rnd vs [] i st = Inr st"
| "init_loop_r rnd vs ((a, b, c) # cs) i (d, ns) =
     (let d' = append_tri (append_tri (append_tri d a i) b i) c i in
      if b < length vs \<and> a < length vs \<and> c < length vs
      then init_loop_r rnd vs cs (Suc i) (d', ns[i := unit_vec_r rnd (raw_normal_r rnd vs (a, b, c))])
      else Inl IndexError)"

definition Mesh_init_r :: "(real \<Rightarrow> real) \<Rightarrow> vec list \<Rightarrow> triangle list \<Rightarrow> error + mesh" where
  "Mesh_init_r rnd vs cs =
     (case init_loop_r rnd vs cs 0 (Map.empty, replicate (length cs) (Vec (0, 0, 0))) of
        Inl e \<Rightarrow> Inl e
      | Inr (d, ns) \<Rightarrow>
          Inr \<lparr>verts = vs, connectivity = cs, normals = ns, node_to_tri = d, tree = vs\<rparr>)"

definition pre_project_r :: "(real \<Rightarrow> real) \<Rightarrow> vec \<Rightarrow> vec \<Rightarrow> vec \<Rightarrow> vec" where
  "pre_project_r rnd point pv vn =
     vsub_r rnd point (smul_r rnd (np_dot_r rnd (vsub_r rnd point pv) vn) vn)"

definition plane_dist_r :: "(real \<Rightarrow> real) \<Rightarrow> vec \<Rightarrow> vec \<Rightarrow> vec \<Rightarrow> real" where
  "plane_dist_r rnd pre pa n = np_dot_r rnd (vsub_r rnd pre pa) n"

definition tri_project_r :: "(real \<Rightarrow> real) \<Rightarrow> vec \<Rightarrow> real \<Rightarrow> vec \<Rightarrow> vec" where
  "tri_project_r rnd pre d n = vsub_r rnd pre (smul_r rnd d n)"

definition in_triangle_r :: "(real \<Rightarrow> real) \<Rightarrow> vec \<Rightarrow> vec \<Rightarrow> vec \<Rightarrow> vec \<Rightarrow> bool" where
  "in_triangle_r rnd pa pb pc projected_point =
     (let u = vsub_r rnd pb pa;
          v = vsub_r rnd pc pa;
          w = vsub_r rnd projected_point pa;
          vxw = np_cross_r rnd v w;
          vxu = np_cross_r rnd v u;
          uxw = np_cross_r rnd u w;
          sign_r = np_dot_r rnd vxw vxu;
          sign_t = np_dot_r rnd uxw (vneg vxu)
      in if sign_r \<ge> 0 \<and> sign_t \<ge> 0
         then (if linalg_norm_r rnd vxu = 0 then False
               else (let r = rnd (linalg_norm_r rnd vxw / linalg_norm_r rnd vxu);
                         t = rnd (linalg_norm_r rnd uxw / linalg_norm_r rnd vxu)
                     in r \<le> 1 \<and> t \<le> 1 \<and> rnd (r + t) \<le> rnd (1001 / 1000)))
         else False)"

fun cpp_loop_r :: "(real \<Rightarrow> real) \<Rightarrow> mesh \<Rightarrow> vec \<Rightarrow> nat list \<Rightarrow> vec list \<Rightarrow> error + real list" where
  "cpp_loop_r rnd m pre [] ns = Inr []"
| "cpp_loop_r rnd m pre (tri # ts) ns =
     (if tri < length (connectivity m) \<and> fst (connectivity m ! tri) < length (verts m)
      then (case cpp_loop_r rnd m pre ts (tl ns) of
              Inl e \<Rightarrow> Inl e
            | Inr ds \<Rightarrow>
                Inr (plane_dist_r rnd pre (verts m ! fst (connectivity m ! tri)) (hd ns) # ds))
      else Inl IndexError)"

fun scan_r :: "(real \<Rightarrow> real) \<Rightarrow> mesh \<Rightarrow> vec \<Rightarrow> nat list \<Rightarrow> vec list \<Rightarrow> real list \<Rightarrow> nat list
    \<Rightarrow> error + vec \<times> int" where
  "scan_r rnd m pre triangles ns cpp [] = Inl UnboundLocalError"
| "scan_r rnd m pre triangles ns cpp (k # order) =
     (let i = triangles ! k;
          projected_point = tri_project_r rnd pre (cpp ! k) (ns ! k)
      in case connectivity m ! i of (a, b, c) \<Rightarrow>
           if b < length (verts m) \<and> c < length (verts m)
           then (if in_triangle_r rnd (verts m ! a) (verts m ! b) (verts m ! c) projected_point
                 then Inr (projected_point, int i)
                 else if order = [] then Inr (projected_point, - 1)
                 else scan_r rnd m pre triangles ns cpp order)
           else Inl IndexError)"

definition project_from_r :: "(real \<Rightarrow> real) \<Rightarrow> mesh \<Rightarrow> nat \<Rightarrow> nat list \<Rightarrow> vec
    \<Rightarrow> error + farray \<times> int" where
  "project_from_r rnd m node triangles point =
     (if list_all (\<lambda>tri. tri < length (normals m)) triangles
      then
        if node < length (verts m)
        then
          (case finite_rows (map (\<lambda>tri. normals m ! tri) triangles) of
             None \<Rightarrow> nan_rounds m triangles
           | Some ns \<Rightarrow>
               (case unit_vec_r rnd (np_sum_r rnd ns) of
                  Nan \<Rightarrow> nan_rounds m triangles
                | Vec vn \<Rightarrow>
                    (let pre = pre_project_r rnd point (verts m ! node) vn in
                     case cpp_loop_r rnd m pre triangles ns of
                       Inl e \<Rightarrow> Inl e
                     | Inr cpp \<Rightarrow>
                         (case scan_r rnd m pre triangles ns cpp (argsort_abs cpp) of
                            Inl e \<Rightarrow> Inl e
                          | Inr (pp, intriangle) \<Rightarrow> Inr (Vec pp, intriangle)))))
        else Inl IndexError
      else Inl IndexError)"

definition project_new_point_r :: "(real \<Rightarrow> real) \<Rightarrow> mesh \<Rightarrow> vec
    \<Rightarrow> mesh \<times> (error + farray \<times> int)" where
  "project_new_point_r rnd m point =
     (let node = kd_query (tree m) point in
      case defaultdict_get (node_to_tri m) node of (triangles, d) \<Rightarrow>
        (m\<lparr>node_to_tri := d\<rparr>,
         if length triangles = 0 then Inl UnconnectedVertex
         else project_from_r rnd m node triangles point))"

text \<open>A triangle in general position, and the mesh that the constructor builds from it in
  binary64 arithmetic.\<close>

definition tilted_verts :: "vec list" where
  "tilted_verts = [(8, 0, 5), (- 1, 1, - 2), (6, 7, - 2)]"

definition tilted_conn :: "triangle list" where
  "tilted_conn = [(0, 1, 2)]"

definition tilted_normal :: vec where
  "tilted_normal = (8520021091709713 / 18014398509481984, - (4970012303497333 / 9007199254740992),
     - (6187158173741577 / 9007199254740992))"

definition tilted_mesh :: mesh where
  "tilted_mesh = \<lparr>verts = tilted_verts, connectivity = tilted_conn, normals = [Vec tilted_normal],
     node_to_tri = map_of [(0, [0]), (1, [0]), (2, [0])], tree = tilted_verts\<rparr>"

section \<open>Adjacency\<close>

lemma tris_of_append_tri:
  "tris_of (append_tri d k i) v = tris_of d v @ (if k = v then [i] else [])"
  by (simp add: append_tri_def defaultdict_get_def tris_of_def split: option.splits)

lemma init_loop_adjacency:
  "init_loop vs cs i (d, ns) = Inr (d', ns') \<Longrightarrow> tris_of d' v = tris_of d v @ incident cs i v"
proof (induction cs arbitrary: i d ns)
  case Nil
  then show ?case by simp
next
  case (Cons tr cs)
  obtain a b c where tr: "tr = (a, b, c)" by (cases tr) auto
  from Cons.prems tr
  have ok: "b < length vs \<and> a < length vs \<and> c < length vs"
    and step: "init_loop vs cs (Suc i)
        (append_tri (append_tri (append_tri d a i) b i) c i,
         ns[i := unit_vec (raw_normal vs (a, b, c))]) = Inr (d', ns')"
    by (simp_all add: Let_def split: if_splits)
  from Cons.IH [OF step] show ?case
    by (simp add: tr tris_of_append_tri)
qed

lemma incident_set:
  "set (incident cs i v) = {i + k | k. k < length cs \<and> v \<in> set (tri_nodes (cs ! k))}"
proof (induction cs arbitrary: i)
  case Nil
  then show ?case by simp
next
  case (Cons tr cs)
  have "{i + k | k. k < length (tr # cs) \<and> v \<in> set (tri_nodes ((tr # cs) ! k))}
      = (if v \<in> set (tri_nodes tr) then {i} else {})
        \<union> {Suc i + k | k. k < length cs \<and> v \<in> set (tri_nodes (cs ! k))}"
    (is "?L = ?R")
  proof (intro set_eqI iffI)
    fix x assume "x \<in> ?L"
    then obtain k where k: "x = i + k" "k < length (tr # cs)" "v \<in> set (tri_nodes ((tr # cs) ! k))"
      by blast
    show "x \<in> ?R"
    proof (cases k)
      case 0
      with k show ?thesis by simp
    next
      case (Suc j)
      with k have "x = Suc i + j \<and> j < length cs \<and> v \<in> set (tri_nodes (cs ! j))" by simp
      then show ?thesis by blast
    qed
  next
    fix x assume "x \<in> ?R"
    then consider "v \<in> set (tri_nodes tr)" "x = i"
      | j where "x = Suc i + j" "j < length cs" "v \<in> set (tri_nodes (cs ! j))"
      by (auto split: if_splits)
    then show "x \<in> ?L"
    proof cases
      case 1
      then have "x = i + 0 \<and> 0 < length (tr # cs) \<and> v \<in> set (tri_nodes ((tr # cs) ! 0))" by simp
      then show ?thesis by blast
    next
      case 2
      then have "x = i + Suc j \<and> Suc j < length (tr # cs) \<and> v \<in> set (tri_nodes ((tr # cs) ! Suc j))"
        by simp
      then show ?thesis by blast
    qed
  qed
  moreover have "set (map (\<lambda>_. i) (filter (\<lambda>k. k = v) (tri_nodes tr)))
      = (if v \<in> set (tri_nodes tr) then {i} else {})"
    by (cases tr) auto
  ultimately show ?case using Cons.IH [of "Suc i"] by simp
qed

lemma incident_ge: "x \<in> set (incident cs i v) \<Longrightarrow> i \<le> x"
  by (auto simp: incident_set)

lemma incident_sorted: "sorted (incident cs i v)"
proof (induction cs arbitrary: i)
  case Nil
  then show ?case by simp
next
  case (Cons tr cs)
  have "\<forall>x\<in>set (incident cs (Suc i) v). i \<le> x"
    by (auto dest: incident_ge)
  moreover have "sorted (map (\<lambda>_. i) (filter (\<lambda>k. k = v) (tri_nodes tr)))"
    by (cases tr) auto
  ultimately show ?case using Cons.IH [of "Suc i"]
    by (auto simp: sorted_append)
qed

lemma incident_strict:
  "list_all (\<lambda>tr. distinct (tri_nodes tr)) cs \<Longrightarrow> sorted_wrt (<) (incident cs i v)"
proof (induction cs arbitrary: i)
  case Nil
  then show ?case by simp
next
  case (Cons tr cs)
  have ge: "\<forall>x\<in>set (incident cs (Suc i) v). i < x"
    by (auto dest: incident_ge)
  from Cons.prems have "distinct (tri_nodes tr)" by simp
  then have "map (\<lambda>_. i) (filter (\<lambda>k. k = v) (tri_nodes tr)) = (if v \<in> set (tri_nodes tr) then [i] else [])"
    by (cases tr) auto
  with ge Cons show ?case
    by (auto simp: sorted_wrt_append)
qed

lemma tris_of_empty: "tris_of Map.empty v = []"
  by (simp add: tris_of_def)

lemma Mesh_init_fields:
  "Mesh_init vs cs = Inr m \<Longrightarrow> verts m = vs \<and> connectivity m = cs \<and> tree m = vs \<and>
     init_loop vs cs 0 (Map.empty, replicate (length cs) (Vec (0, 0, 0))) = Inr (node_to_tri m, normals m)"
  by (auto simp: Mesh_init_def split: sum.splits)

lemma Mesh_init_adjacency:
  "Mesh_init vs cs = Inr m \<Longrightarrow> tris_of (node_to_tri m) v = incident cs 0 v"
  using init_loop_adjacency [of vs cs 0 Map.empty "replicate (length cs) (Vec (0, 0, 0))" "node_to_tri m" "normals m" v]
  by (simp add: Mesh_init_fields tris_of_empty)

text \<open>
  C6. After construction, a triangle index \<open>t\<close> is in \<^verbatim>\<open>node_to_tri[v]\<close> exactly when \<open>t\<close> is
  a row of the connectivity array and \<open>v\<close> is one of the three vertex indices of that row;
  and when the three indices of every triangle are pairwise distinct, no triangle index
  occurs twice in \<^verbatim>\<open>node_to_tri[v]\<close>.
\<close>

theorem adjacency_inverse:
  assumes "Mesh_init vs cs = Inr m"
  shows "(t \<in> set (tris_of (node_to_tri m) v)
            \<longleftrightarrow> t < length (connectivity m) \<and> v \<in> set (tri_nodes (connectivity m ! t)))
       \<and> (list_all (\<lambda>tr. distinct (tri_nodes tr)) (connectivity m)
            \<longrightarrow> distinct (tris_of (node_to_tri m) v))"
proof -
  have c: "connectivity m = cs" using assms by (simp add: Mesh_init_fields)
  have a: "tris_of (node_to_tri m) v = incident cs 0 v"
    using assms by (rule Mesh_init_adjacency)
  have "distinct (incident cs 0 v)" if "list_all (\<lambda>tr. distinct (tri_nodes tr)) cs"
    using incident_strict [OF that, of 0 v] by (simp add: strict_sorted_iff)
  then show ?thesis
    by (auto simp: a c incident_set)
qed

text \<open>
  C10. After construction, \<^verbatim>\<open>node_to_tri[v]\<close> lists the incident triangles in ascending
  order, strictly ascending when the three indices of every triangle are pairwise distinct.
\<close>

theorem adjacency_ascending:
  assumes "Mesh_init vs cs = Inr m"
  shows "sorted (tris_of (node_to_tri m) v)
       \<and> (list_all (\<lambda>tr. distinct (tri_nodes tr)) (connectivity m)
            \<longrightarrow> sorted_wrt (<) (tris_of (node_to_tri m) v))"
  using assms incident_sorted [of cs 0 v] incident_strict [of cs 0 v]
  by (simp add: Mesh_init_adjacency Mesh_init_fields)



section \<open>The constructor\<close>

lemma init_loop_indices:
  "init_loop vs cs i st = Inr st' \<Longrightarrow> tr \<in> set cs \<Longrightarrow> list_all (\<lambda>k. k < length vs) (tri_nodes tr)"
proof (induction cs arbitrary: i st)
  case Nil
  then show ?case by simp
next
  case (Cons x cs)
  obtain a b c where x: "x = (a, b, c)" by (cases x) auto
  obtain d ns where st: "st = (d, ns)" by (cases st) auto
  from Cons.prems(1) x st
  have ok: "b < length vs \<and> a < length vs \<and> c < length vs"
    and step: "init_loop vs cs (Suc i)
        (append_tri (append_tri (append_tri d a i) b i) c i,
         ns[i := unit_vec (raw_normal vs (a, b, c))]) = Inr st'"
    by (simp_all add: Let_def split: if_splits)
  from Cons.prems(2) consider "tr = x" | "tr \<in> set cs" by auto
  then show ?case
  proof cases
    case 1
    with ok x show ?thesis by simp
  next
    case 2
    from Cons.IH [OF step 2] show ?thesis .
  qed
qed

lemma init_loop_normals:
  "init_loop vs cs i (d, ns) = Inr (d', ns') \<Longrightarrow>
     length ns' = length ns \<and>
     (\<forall>t. t < i \<longrightarrow> ns' ! t = ns ! t) \<and>
     (\<forall>k. k < length cs \<longrightarrow> i + k < length ns \<longrightarrow> ns' ! (i + k) = unit_vec (raw_normal vs (cs ! k)))"
proof (induction cs arbitrary: i d ns)
  case Nil
  then show ?case by simp
next
  case (Cons x cs)
  obtain a b c where x: "x = (a, b, c)" by (cases x) auto
  let ?ns = "ns[i := unit_vec (raw_normal vs (a, b, c))]"
  from Cons.prems x
  have step: "init_loop vs cs (Suc i)
        (append_tri (append_tri (append_tri d a i) b i) c i, ?ns) = Inr (d', ns')"
    by (simp_all add: Let_def split: if_splits)
  note ih = Cons.IH [OF step]
  have len: "length ns' = length ns" using ih by simp
  have low: "ns' ! t = ns ! t" if "t < i" for t
    using ih that by simp
  have here: "ns' ! (i + k) = unit_vec (raw_normal vs ((x # cs) ! k))"
    if "k < length (x # cs)" "i + k < length ns" for k
  proof (cases k)
    case 0
    have "ns' ! i = ?ns ! i" using ih by simp
    with 0 that x show ?thesis by simp
  next
    case (Suc j)
    with that have "j < length cs" "Suc i + j < length ?ns" by simp_all
    with ih have "ns' ! (Suc i + j) = unit_vec (raw_normal vs (cs ! j))" by blast
    with Suc show ?thesis by simp
  qed
  from len low here show ?case by blast
qed

lemma Mesh_init_normals:
  assumes "Mesh_init vs cs = Inr m"
  shows "length (normals m) = length cs"
    and "t < length cs \<Longrightarrow> normals m ! t = unit_vec (raw_normal vs (cs ! t))"
proof -
  have il: "init_loop vs cs 0 (Map.empty, replicate (length cs) (Vec (0, 0, 0))) = Inr (node_to_tri m, normals m)"
    using assms by (simp add: Mesh_init_fields)
  from init_loop_normals [OF il] show "length (normals m) = length cs" by simp
  from init_loop_normals [OF il] show "t < length cs \<Longrightarrow> normals m ! t = unit_vec (raw_normal vs (cs ! t))"
    by simp
qed

lemma Mesh_init_indices:
  assumes "Mesh_init vs cs = Inr m" "t < length cs"
  shows "list_all (\<lambda>k. k < length vs) (tri_nodes (cs ! t))"
proof -
  have il: "init_loop vs cs 0 (Map.empty, replicate (length cs) (Vec (0, 0, 0))) = Inr (node_to_tri m, normals m)"
    using assms by (simp add: Mesh_init_fields)
  from init_loop_indices [OF il] assms(2) show ?thesis by simp
qed

lemma Mesh_init_incident:
  assumes "Mesh_init vs cs = Inr m" "t \<in> set (tris_of (node_to_tri m) v)"
  shows "t < length cs \<and> v \<in> set (tri_nodes (cs ! t)) \<and> v < length vs"
proof -
  from assms have a: "t < length cs" "v \<in> set (tri_nodes (cs ! t))"
    by (auto simp: Mesh_init_adjacency incident_set)
  from Mesh_init_indices [OF assms(1) a(1)] a(2) have "v < length vs"
    by (simp add: list_all_iff)
  with a show ?thesis by simp
qed

section \<open>The loops of the projection\<close>

lemma finite_rows_Some:
  "finite_rows rs = Some vs \<Longrightarrow> rs = map Vec vs"
proof (induction rs arbitrary: vs)
  case Nil
  then show ?case by simp
next
  case (Cons r rs)
  then show ?case by (cases r) (auto split: option.splits)
qed

lemma finite_rows_None:
  "finite_rows rs = None \<Longrightarrow> Nan \<in> set rs"
proof (induction rs)
  case Nil
  then show ?case by simp
next
  case (Cons r rs)
  then show ?case by (cases r) (auto split: option.splits)
qed

lemma finite_rows_map_Vec: "finite_rows (map Vec vs) = Some vs"
  by (induction vs) auto

lemma cpp_loop_ok:
  "list_all (corners_ok m) ts \<Longrightarrow> length ns = length ts \<Longrightarrow>
     cpp_loop m pre ts ns =
       Inr (map (\<lambda>j. plane_dist pre (verts m ! fst (connectivity m ! (ts ! j))) (ns ! j)) [0..<length ts])"
proof (induction ts arbitrary: ns)
  case Nil
  then show ?case by simp
next
  case (Cons t ts)
  then obtain n ns' where ns: "ns = n # ns'" by (cases ns) auto
  from Cons.prems have here: "t < length (connectivity m)" "fst (connectivity m ! t) < length (verts m)"
    by (auto simp: corners_ok_def split: prod.splits) (cases "connectivity m ! t", simp)
  from Cons.prems ns have ih: "cpp_loop m pre ts ns' =
       Inr (map (\<lambda>j. plane_dist pre (verts m ! fst (connectivity m ! (ts ! j))) (ns' ! j)) [0..<length ts])"
    by (intro Cons.IH) simp_all
  have shift: "map (\<lambda>j. plane_dist pre (verts m ! fst (connectivity m ! ((t # ts) ! j))) ((n # ns') ! j)) [0..<length (t # ts)]
      = plane_dist pre (verts m ! fst (connectivity m ! t)) n
        # map (\<lambda>j. plane_dist pre (verts m ! fst (connectivity m ! (ts ! j))) (ns' ! j)) [0..<length ts]"
  proof -
    have "[0..<length (t # ts)] = 0 # map Suc [0..<length ts]"
      by (simp add: upt_conv_Cons map_Suc_upt del: upt_Suc)
    then show ?thesis by (simp add: o_def)
  qed
  show ?case
    unfolding ns shift using here ih by simp
qed

lemma scan_find:
  "order \<noteq> [] \<Longrightarrow> list_all (\<lambda>k. corners_ok m (triangles ! k)) order \<Longrightarrow>
     scan m pre triangles ns cpp order =
       Inr (case find (accepts m pre triangles ns cpp) order of
              Some k \<Rightarrow> (tri_project pre (cpp ! k) (ns ! k), int (triangles ! k))
            | None \<Rightarrow> (tri_project pre (cpp ! last order) (ns ! last order), - 1))"
proof (induction order)
  case Nil
  then show ?case by simp
next
  case (Cons k order)
  obtain a b c where tr: "connectivity m ! (triangles ! k) = (a, b, c)"
    by (cases "connectivity m ! (triangles ! k)") auto
  from Cons.prems tr have ok: "b < length (verts m)" "c < length (verts m)"
    by (simp_all add: corners_ok_def)
  show ?case
  proof (cases "accepts m pre triangles ns cpp k")
    case True
    with tr ok show ?thesis by (simp add: accepts_def Let_def)
  next
    case False
    show ?thesis
    proof (cases "order = []")
      case True
      with False tr ok show ?thesis by (simp add: accepts_def Let_def)
    next
      case ne: False
      from Cons.prems have "list_all (\<lambda>k. corners_ok m (triangles ! k)) order" by simp
      note ih = Cons.IH [OF ne this]
      have l: "last (k # order) = last order" using ne by simp
      have f: "find (accepts m pre triangles ns cpp) (k # order) = find (accepts m pre triangles ns cpp) order"
        using False by simp
      have "scan m pre triangles ns cpp (k # order) = scan m pre triangles ns cpp order"
        using False tr ok ne by (simp add: accepts_def Let_def)
      with ih show ?thesis unfolding l f by simp
    qed
  qed
qed

lemma argsort_abs_set: "set (argsort_abs cpp) = {0..<length cpp}"
  by (simp add: argsort_abs_def)

lemma argsort_abs_sorted: "sorted (map (\<lambda>k. \<bar>cpp ! k\<bar>) (argsort_abs cpp))"
  by (simp add: argsort_abs_def)

lemma argsort_abs_distinct: "distinct (argsort_abs cpp)"
  by (simp add: argsort_abs_def)

lemma argsort_abs_length: "length (argsort_abs cpp) = length cpp"
  by (simp add: argsort_abs_def)

lemma argsort_abs_last_max:
  assumes "j < length cpp"
  shows "\<bar>cpp ! j\<bar> \<le> \<bar>cpp ! last (argsort_abs cpp)\<bar>"
proof -
  let ?o = "argsort_abs cpp"
  have ne: "?o \<noteq> []" using assms argsort_abs_length [of cpp] by auto
  have "j \<in> set ?o" using assms by (simp add: argsort_abs_set)
  then obtain p where p: "p < length ?o" "?o ! p = j" by (auto simp: in_set_conv_nth)
  have "p \<le> length ?o - 1" using p by simp
  then have "map (\<lambda>k. \<bar>cpp ! k\<bar>) ?o ! p \<le> map (\<lambda>k. \<bar>cpp ! k\<bar>) ?o ! (length ?o - 1)"
    using argsort_abs_sorted [of cpp] ne by (intro sorted_nth_mono) simp_all
  with p ne show ?thesis by (simp add: last_conv_nth)
qed

lemma argsort_abs_first_min:
  assumes "j < length cpp"
  shows "\<bar>cpp ! hd (argsort_abs cpp)\<bar> \<le> \<bar>cpp ! j\<bar>"
proof -
  let ?o = "argsort_abs cpp"
  have ne: "?o \<noteq> []" using assms argsort_abs_length [of cpp] by auto
  have "j \<in> set ?o" using assms by (simp add: argsort_abs_set)
  then obtain p where p: "p < length ?o" "?o ! p = j" by (auto simp: in_set_conv_nth)
  have "map (\<lambda>k. \<bar>cpp ! k\<bar>) ?o ! 0 \<le> map (\<lambda>k. \<bar>cpp ! k\<bar>) ?o ! p"
    using argsort_abs_sorted [of cpp] p by (intro sorted_nth_mono) simp_all
  with p ne show ?thesis by (simp add: hd_conv_nth)
qed

section \<open>The projection of a built mesh\<close>

lemma defaultdict_get_fst: "fst (defaultdict_get d k) = tris_of d k"
  by (simp add: defaultdict_get_def tris_of_def split: option.splits)

lemma defaultdict_get_snd:
  "snd (defaultdict_get d k) = (if d k = None then d(k \<mapsto> []) else d)"
  by (auto simp: defaultdict_get_def split: option.splits)

lemma project_new_point_snd:
  "snd (project_new_point m point) =
     (if tris_of (node_to_tri m) (kd_query (tree m) point) = [] then Inl UnconnectedVertex
      else project_from m (kd_query (tree m) point)
             (tris_of (node_to_tri m) (kd_query (tree m) point)) point)"
  by (simp add: project_new_point_def Let_def defaultdict_get_def tris_of_def split: option.splits)

lemma project_new_point_fst:
  "fst (project_new_point m point) =
     m\<lparr>node_to_tri := snd (defaultdict_get (node_to_tri m) (kd_query (tree m) point))\<rparr>"
  by (simp add: project_new_point_def Let_def split: prod.splits)

lemma built_corners_ok:
  assumes "Mesh_init vs cs = Inr m"
  shows "list_all (corners_ok m) (tris_of (node_to_tri m) v)"
proof -
  have f: "verts m = vs" "connectivity m = cs" using assms by (simp_all add: Mesh_init_fields)
  have "corners_ok m t" if "t \<in> set (tris_of (node_to_tri m) v)" for t
  proof -
    from Mesh_init_incident [OF assms that] have t: "t < length cs" by simp
    from Mesh_init_indices [OF assms t] t show ?thesis by (simp add: corners_ok_def f)
  qed
  then show ?thesis by (simp add: list_all_iff)
qed

lemma built_normals_in_range:
  assumes "Mesh_init vs cs = Inr m"
  shows "list_all (\<lambda>tri. tri < length (normals m)) (tris_of (node_to_tri m) v)"
  using Mesh_init_incident [OF assms, of _ v] Mesh_init_normals(1) [OF assms]
  by (simp add: list_all_iff)

lemma built_node_in_range:
  assumes "Mesh_init vs cs = Inr m" "tris_of (node_to_tri m) v \<noteq> []"
  shows "v < length (verts m)"
proof -
  from assms(2) obtain t where "t \<in> set (tris_of (node_to_tri m) v)"
    by (cases "tris_of (node_to_tri m) v") auto
  from Mesh_init_incident [OF assms(1) this] assms(1) show ?thesis
    by (simp add: Mesh_init_fields)
qed

lemma nan_rounds_ok:
  "list_all (corners_ok m) triangles \<Longrightarrow> nan_rounds m triangles = Inr (Nan, - 1)"
proof -
  assume a: "list_all (corners_ok m) triangles"
  have "list_all (\<lambda>tri. tri < length (connectivity m) \<and>
            (case connectivity m ! tri of (a, b, c) \<Rightarrow>
               a < length (verts m) \<and> b < length (verts m) \<and> c < length (verts m))) triangles"
    using a by (auto simp: list_all_iff corners_ok_def split: prod.splits)
  then show ?thesis by (simp add: nan_rounds_def)
qed

lemma project_from_nan:
  assumes "list_all (corners_ok m) triangles" "list_all (\<lambda>tri. tri < length (normals m)) triangles"
    "node < length (verts m)" "vertex_normal m triangles = Nan"
  shows "project_from m node triangles point = Inr (Nan, - 1)"
  using assms by (simp add: project_from_def vertex_normal_def nan_rounds_ok split: option.splits)

lemma project_from_finite:
  assumes ok: "list_all (corners_ok m) triangles" "list_all (\<lambda>tri. tri < length (normals m)) triangles"
    "node < length (verts m)" "triangles \<noteq> []"
    and ns: "finite_rows (map (\<lambda>tri. normals m ! tri) triangles) = Some ns"
    and vn: "unit_vec (np_sum ns) = Vec vn"
    and pre: "pre = pre_project point (verts m ! node) vn"
    and cpp: "cpp = map (\<lambda>j. plane_dist pre (verts m ! fst (connectivity m ! (triangles ! j))) (ns ! j))
                      [0..<length triangles]"
  shows "cpp_loop m pre triangles ns = Inr cpp"
    and "project_from m node triangles point =
       Inr (case find (accepts m pre triangles ns cpp) (argsort_abs cpp) of
              Some k \<Rightarrow> (Vec (tri_project pre (cpp ! k) (ns ! k)), int (triangles ! k))
            | None \<Rightarrow> (Vec (tri_project pre (cpp ! last (argsort_abs cpp)) (ns ! last (argsort_abs cpp))), - 1))"
proof -
  have len: "length ns = length triangles"
    using finite_rows_Some [OF ns] by (metis length_map)
  show c: "cpp_loop m pre triangles ns = Inr cpp"
    unfolding cpp by (rule cpp_loop_ok [OF ok(1) len])
  have lc: "length cpp = length triangles" by (simp add: cpp)
  have ne: "argsort_abs cpp \<noteq> []"
    using argsort_abs_length [of cpp] lc ok(4) by auto
  have "list_all (\<lambda>k. corners_ok m (triangles ! k)) (argsort_abs cpp)"
    using ok(1) by (auto simp: list_all_iff argsort_abs_set lc)
  note s = scan_find [OF ne this, of pre ns]
  show "project_from m node triangles point =
       Inr (case find (accepts m pre triangles ns cpp) (argsort_abs cpp) of
              Some k \<Rightarrow> (Vec (tri_project pre (cpp ! k) (ns ! k)), int (triangles ! k))
            | None \<Rightarrow> (Vec (tri_project pre (cpp ! last (argsort_abs cpp)) (ns ! last (argsort_abs cpp))), - 1))"
    using ok(2,3) ns vn c s
    by (simp add: project_from_def pre [symmetric] split: option.splits)
qed

section \<open>The planar quad\<close>

lemma sqrt_quarter: "sqrt (1 / 4) = 1 / 2"
  by (simp add: real_sqrt_divide)

lemma sqrt_25: "sqrt 25 = 5"
proof -
  have "sqrt 25 = sqrt (5\<^sup>2)" by simp
  also have "\<dots> = 5" by (simp only: real_sqrt_abs abs_numeral)
  finally show ?thesis .
qed

lemma sqrt_25th: "sqrt (1 / 25) = 1 / 5"
  by (simp add: real_sqrt_divide sqrt_25)

lemma quad_mesh_built: "Mesh_init quad_verts quad_conn = Inr quad_mesh"
proof -
  have "append_tri (append_tri (append_tri (append_tri (append_tri (append_tri Map.empty 0 0) 1 0) 2 0) 0 1) 2 1) 3 1
      = map_of [(0, [0, Suc 0]), (Suc 0, [0]), (2, [0, Suc 0]), (3, [Suc 0])]"
    by (rule ext) (simp add: append_tri_def defaultdict_get_def)
  then show ?thesis
    by (simp add: Mesh_init_def quad_verts_def quad_conn_def quad_mesh_def raw_normal_def
        unit_vec_def linalg_norm_def)
qed

theorem adjacency_inverse_witness:
  "Mesh_init quad_verts quad_conn = Inr quad_mesh
   \<and> 1 \<in> set (tris_of (node_to_tri quad_mesh) 2)
   \<and> 1 \<notin> set (tris_of (node_to_tri quad_mesh) 1)
   \<and> list_all (\<lambda>tr. distinct (tri_nodes tr)) (connectivity quad_mesh)
   \<and> distinct (tris_of (node_to_tri quad_mesh) 2)"
  using adjacency_inverse [OF quad_mesh_built, of 1 2] adjacency_inverse [OF quad_mesh_built, of 1 1]
    quad_mesh_built
  by (simp add: quad_mesh_def quad_conn_def tris_of_def)

theorem adjacency_ascending_witness:
  "Mesh_init quad_verts quad_conn = Inr quad_mesh
   \<and> list_all (\<lambda>tr. distinct (tri_nodes tr)) (connectivity quad_mesh)
   \<and> sorted_wrt (<) (tris_of (node_to_tri quad_mesh) 0)
   \<and> tris_of (node_to_tri quad_mesh) 0 = [0, 1]"
  using adjacency_ascending [OF quad_mesh_built, of 0] quad_mesh_built
  by (simp add: quad_mesh_def quad_conn_def tris_of_def)

lemmas project_defs = project_new_point_def project_from_def pre_project_def dist2_def
  defaultdict_get_def argsort_abs_def plane_dist_def in_triangle_def tri_project_def Let_def
  linalg_norm_def unit_vec_def

text \<open>
  C7. On the quad with vertices \<open>(0,0,0), (1,0,0), (1,1,0), (0,1,0)\<close> and triangles
  \<open>(0,1,2), (0,2,3)\<close>, as the constructor builds it, the query \<open>(0.5, 0.5, 5)\<close> returns the
  point \<open>(0.5, 0.5, 0)\<close> with triangle \<open>0\<close>. The four vertices are at the same distance
  from that query; from each of the other three the projection gives the same point, with
  triangle \<open>0\<close>, \<open>0\<close> and \<open>1\<close>. The query \<open>(0.2, 0.2, 3)\<close> returns the point
  \<open>(0.2, 0.2, 0)\<close> with triangle \<open>0\<close>.
\<close>

theorem quad_scenario:
  "Mesh_init quad_verts quad_conn = Inr quad_mesh
   \<and> snd (project_new_point quad_mesh (1 / 2, 1 / 2, 5)) = Inr (Vec (1 / 2, 1 / 2, 0), 0)
   \<and> dist2 (1 / 2, 1 / 2, 5) (quad_verts ! 0) = dist2 (1 / 2, 1 / 2, 5) (quad_verts ! 1)
   \<and> dist2 (1 / 2, 1 / 2, 5) (quad_verts ! 0) = dist2 (1 / 2, 1 / 2, 5) (quad_verts ! 2)
   \<and> dist2 (1 / 2, 1 / 2, 5) (quad_verts ! 0) = dist2 (1 / 2, 1 / 2, 5) (quad_verts ! 3)
   \<and> project_from quad_mesh 1 (tris_of (node_to_tri quad_mesh) 1) (1 / 2, 1 / 2, 5)
       = Inr (Vec (1 / 2, 1 / 2, 0), 0)
   \<and> project_from quad_mesh 2 (tris_of (node_to_tri quad_mesh) 2) (1 / 2, 1 / 2, 5)
       = Inr (Vec (1 / 2, 1 / 2, 0), 0)
   \<and> project_from quad_mesh 3 (tris_of (node_to_tri quad_mesh) 3) (1 / 2, 1 / 2, 5)
       = Inr (Vec (1 / 2, 1 / 2, 0), 1)
   \<and> snd (project_new_point quad_mesh (1 / 5, 1 / 5, 3)) = Inr (Vec (1 / 5, 1 / 5, 0), 0)"
  using quad_mesh_built
  by (simp add: quad_mesh_def quad_verts_def quad_conn_def project_defs sqrt_quarter sqrt_25th
      tris_of_def)

section \<open>Degenerate triangles\<close>

lemma np_dot_self_nonneg: "0 \<le> np_dot v v"
  by (cases v) simp

lemma np_dot_self_zero: "np_dot v v = 0 \<longleftrightarrow> v = (0, 0, 0)"
proof (cases v)
  case (fields a b c)
  have "a * a + b * b + c * c = 0 \<longleftrightarrow> a = 0 \<and> b = 0 \<and> c = 0"
  proof
    assume h: "a * a + b * b + c * c = 0"
    have "0 \<le> a * a" "0 \<le> b * b" "0 \<le> c * c" by simp_all
    with h have "a * a = 0 \<and> b * b = 0 \<and> c * c = 0" by linarith
    then show "a = 0 \<and> b = 0 \<and> c = 0" by simp
  qed simp
  with fields show ?thesis by simp
qed

lemma linalg_norm_nonneg: "0 \<le> linalg_norm v"
  by (simp add: linalg_norm_def np_dot_self_nonneg)

lemma linalg_norm_zero: "linalg_norm v = 0 \<longleftrightarrow> v = (0, 0, 0)"
  by (simp add: linalg_norm_def np_dot_self_zero)

lemma linalg_norm_vdiv:
  assumes "0 < k"
  shows "linalg_norm (vdiv v k) = linalg_norm v / k"
proof (cases v)
  case (fields a b c)
  have "a / k * (a / k) + b / k * (b / k) + c / k * (c / k) = (a * a + b * b + c * c) / (k * k)"
    by (simp add: add_divide_distrib)
  then have "sqrt (a / k * (a / k) + b / k * (b / k) + c / k * (c / k)) = sqrt (a * a + b * b + c * c) / sqrt (k * k)"
    by (simp add: real_sqrt_divide)
  also have "sqrt (k * k) = k" using assms by simp
  finally show ?thesis by (simp add: fields linalg_norm_def)
qed

lemma unit_vec_cases:
  "unit_vec n = (if n = (0, 0, 0) then Nan else Vec (vdiv n (linalg_norm n)))"
  by (simp add: unit_vec_def linalg_norm_zero)

lemma unit_vec_norm:
  assumes "unit_vec n = Vec u"
  shows "linalg_norm u = 1"
proof -
  from assms have nz: "linalg_norm n \<noteq> 0" and u: "u = vdiv n (linalg_norm n)"
    by (auto simp: unit_vec_def split: if_splits)
  from nz linalg_norm_nonneg [of n] have pos: "0 < linalg_norm n" by simp
  from linalg_norm_vdiv [OF pos, of n] nz u show ?thesis by simp
qed

lemma init_loop_succeeds:
  "indices_ok vs cs \<Longrightarrow> \<exists>st'. init_loop vs cs i st = Inr st'"
proof (induction cs arbitrary: i st)
  case Nil
  then show ?case by simp
next
  case (Cons x cs)
  obtain a b c where x: "x = (a, b, c)" by (cases x) auto
  obtain d ns where st: "st = (d, ns)" by (cases st) auto
  from Cons.prems x have ok: "a < length vs" "b < length vs" "c < length vs" and rest: "indices_ok vs cs"
    by (simp_all add: indices_ok_def)
  from Cons.IH [OF rest] ok show ?case by (simp add: x st Let_def)
qed

lemma init_loop_error:
  "init_loop vs cs i st = Inl e \<Longrightarrow> e = IndexError \<and> \<not> indices_ok vs cs"
proof (induction cs arbitrary: i st)
  case Nil
  then show ?case by simp
next
  case (Cons x cs)
  obtain a b c where x: "x = (a, b, c)" by (cases x) auto
  obtain d ns where st: "st = (d, ns)" by (cases st) auto
  show ?case
  proof (cases "b < length vs \<and> a < length vs \<and> c < length vs")
    case True
    with Cons.prems x st have "init_loop vs cs (Suc i)
        (append_tri (append_tri (append_tri d a i) b i) c i,
         ns[i := unit_vec (raw_normal vs (a, b, c))]) = Inl e"
      by (simp add: Let_def)
    from Cons.IH [OF this] show ?thesis by (simp add: indices_ok_def)
  next
    case False
    with Cons.prems x st show ?thesis by (auto simp: Let_def indices_ok_def)
  qed
qed

lemma Mesh_init_succeeds: "indices_ok vs cs \<Longrightarrow> \<exists>m. Mesh_init vs cs = Inr m"
proof -
  assume "indices_ok vs cs"
  from init_loop_succeeds [OF this]
  obtain st where "init_loop vs cs 0 (Map.empty, replicate (length cs) (Vec (0, 0, 0))) = Inr st"
    by blast
  then show ?thesis by (cases st) (simp add: Mesh_init_def)
qed

lemma Mesh_init_error: "Mesh_init vs cs = Inl e \<Longrightarrow> e = IndexError \<and> \<not> indices_ok vs cs"
  using init_loop_error [of vs cs 0 "(Map.empty, replicate (length cs) (Vec (0, 0, 0)))" e]
  by (auto simp: Mesh_init_def split: sum.splits)

text \<open>
  C2, as amended. The constructor has no degeneracy check: it returns a mesh whenever
  every vertex index is in range and fails with \<^verbatim>\<open>IndexError\<close> otherwise; for a triangle
  whose raw normal is the zero vector it stores a NaN normal, and for every other triangle
  the raw normal divided by its norm, a vector of norm 1.
\<close>

theorem no_degeneracy_check:
  "(indices_ok vs cs \<longrightarrow> (\<exists>m. Mesh_init vs cs = Inr m))
   \<and> (\<not> indices_ok vs cs \<longrightarrow> Mesh_init vs cs = Inl IndexError)
   \<and> (\<forall>m t. Mesh_init vs cs = Inr m \<longrightarrow> t < length cs \<longrightarrow>
        normals m ! t = (if raw_normal vs (cs ! t) = (0, 0, 0) then Nan
                         else Vec (vdiv (raw_normal vs (cs ! t)) (linalg_norm (raw_normal vs (cs ! t)))))
        \<and> (raw_normal vs (cs ! t) \<noteq> (0, 0, 0) \<longrightarrow>
             linalg_norm (vdiv (raw_normal vs (cs ! t)) (linalg_norm (raw_normal vs (cs ! t)))) = 1))"
proof (intro conjI impI allI)
  assume "indices_ok vs cs"
  then show "\<exists>m. Mesh_init vs cs = Inr m" by (rule Mesh_init_succeeds)
next
  assume bad: "\<not> indices_ok vs cs"
  show "Mesh_init vs cs = Inl IndexError"
  proof (cases "Mesh_init vs cs")
    case (Inl e)
    with Mesh_init_error [OF Inl] show ?thesis by simp
  next
    case (Inr m)
    have "indices_ok vs cs"
      unfolding indices_ok_def list_all_iff
    proof
      fix tr assume "tr \<in> set cs"
      then obtain t where "t < length cs" "cs ! t = tr" by (auto simp: in_set_conv_nth)
      with Mesh_init_indices [OF Inr, of t] show "\<forall>k\<in>set (tri_nodes tr). k < length vs"
        by (simp add: list_all_iff)
    qed
    with bad show ?thesis by simp
  qed
next
  fix m t assume b: "Mesh_init vs cs = Inr m" and t: "t < length cs"
  show "normals m ! t = (if raw_normal vs (cs ! t) = (0, 0, 0) then Nan
                         else Vec (vdiv (raw_normal vs (cs ! t)) (linalg_norm (raw_normal vs (cs ! t)))))"
    using Mesh_init_normals(2) [OF b t] by (simp add: unit_vec_cases)
next
  fix m t assume nz: "raw_normal vs (cs ! t) \<noteq> (0, 0, 0)"
  then have "unit_vec (raw_normal vs (cs ! t)) = Vec (vdiv (raw_normal vs (cs ! t)) (linalg_norm (raw_normal vs (cs ! t))))"
    by (simp add: unit_vec_cases)
  then show "linalg_norm (vdiv (raw_normal vs (cs ! t)) (linalg_norm (raw_normal vs (cs ! t)))) = 1"
    by (rule unit_vec_norm)
qed

lemma sliver_mesh_built: "Mesh_init sliver_verts sliver_conn = Inr sliver_mesh"
proof -
  have "append_tri (append_tri (append_tri Map.empty 0 0) 1 0) 2 0
      = map_of [(0, [0]), (Suc 0, [0]), (2, [0])]"
    by (rule ext) (simp add: append_tri_def defaultdict_get_def)
  then show ?thesis
    by (simp add: Mesh_init_def sliver_verts_def sliver_conn_def sliver_mesh_def raw_normal_def
        unit_vec_def linalg_norm_def)
qed

text \<open>
  Against C2 as stated: the three collinear vertices \<open>(0,0,0), (1,0,0), (2,0,0)\<close> with the
  triangle \<open>(0,1,2)\<close> have a zero raw normal, and the constructor returns a mesh whose
  normal for that triangle is NaN.
\<close>

theorem degenerate_accepted:
  "raw_normal sliver_verts (sliver_conn ! 0) = (0, 0, 0)
   \<and> Mesh_init sliver_verts sliver_conn = Inr sliver_mesh
   \<and> normals sliver_mesh ! 0 = Nan"
  using sliver_mesh_built
  by (simp add: sliver_mesh_def sliver_verts_def sliver_conn_def raw_normal_def)

theorem no_degeneracy_check_witness:
  "indices_ok sliver_verts sliver_conn
   \<and> Mesh_init sliver_verts sliver_conn = Inr sliver_mesh
   \<and> normals sliver_mesh ! 0 = Nan
   \<and> indices_ok quad_verts quad_conn
   \<and> Mesh_init quad_verts quad_conn = Inr quad_mesh
   \<and> raw_normal quad_verts (quad_conn ! 0) \<noteq> (0, 0, 0)
   \<and> normals quad_mesh ! 0 = Vec (0, 0, 1) \<and> linalg_norm (0, 0, 1) = 1
   \<and> \<not> indices_ok sliver_verts quad_conn
   \<and> Mesh_init sliver_verts quad_conn = Inl IndexError"
  using no_degeneracy_check [of sliver_verts sliver_conn] no_degeneracy_check [of quad_verts quad_conn]
    no_degeneracy_check [of sliver_verts quad_conn] sliver_mesh_built quad_mesh_built
  by (simp add: indices_ok_def sliver_verts_def sliver_conn_def quad_verts_def quad_conn_def
      sliver_mesh_def quad_mesh_def raw_normal_def linalg_norm_def)

section \<open>Exceptions and the frame of a call\<close>

lemma nearest_from_bound:
  "best < i \<Longrightarrow> nearest_from p vs i best bd < i + length vs"
proof (induction vs arbitrary: i best bd)
  case Nil
  then show ?case by simp
next
  case (Cons v vs)
  have a: "nearest_from p vs (Suc i) i (dist2 p v) < Suc i + length vs"
    by (rule Cons.IH) simp
  have b: "nearest_from p vs (Suc i) best bd < Suc i + length vs"
    by (rule Cons.IH) (use Cons.prems in simp)
  from a b show ?case by simp
qed

lemma kd_query_bound: "vs \<noteq> [] \<Longrightarrow> kd_query vs p < length vs"
proof (cases vs)
  case Nil
  assume "vs \<noteq> []"
  with Nil show ?thesis by simp
next
  case (Cons v vs')
  have "nearest_from p vs' 1 0 (dist2 p v) < 1 + length vs'"
    by (rule nearest_from_bound) simp
  with Cons show ?thesis by simp
qed

lemma loose_mesh_built: "Mesh_init loose_verts loose_conn = Inr loose_mesh"
proof -
  have "append_tri (append_tri (append_tri Map.empty 0 0) 1 0) 2 0
      = map_of [(0, [0]), (Suc 0, [0]), (2, [0])]"
    by (rule ext) (simp add: append_tri_def defaultdict_get_def)
  then show ?thesis
    by (simp add: Mesh_init_def loose_verts_def loose_conn_def loose_mesh_def raw_normal_def
        unit_vec_def linalg_norm_def)
qed

lemma project_from_built:
  assumes b: "Mesh_init vs cs = Inr m"
    and tr: "triangles = tris_of (node_to_tri m) node" "triangles \<noteq> []"
  shows "\<exists>pp i. project_from m node triangles point = Inr (pp, i)
           \<and> (i = - 1 \<or> (\<exists>t \<in> set triangles. i = int t))
           \<and> (vertex_normal m triangles \<noteq> Nan \<longrightarrow> pp \<noteq> Nan)"
proof -
  have ok: "list_all (corners_ok m) triangles" "list_all (\<lambda>tri. tri < length (normals m)) triangles"
    "node < length (verts m)"
    using built_corners_ok [OF b, of node] built_normals_in_range [OF b, of node]
      built_node_in_range [OF b, of node] tr by simp_all
  show ?thesis
  proof (cases "vertex_normal m triangles")
    case Nan
    with project_from_nan [OF ok Nan] show ?thesis by simp
  next
    case (Vec vn)
    then obtain ns where ns: "finite_rows (map (\<lambda>tri. normals m ! tri) triangles) = Some ns"
      and vn: "unit_vec (np_sum ns) = Vec vn"
      by (auto simp: vertex_normal_def split: option.splits)
    define pre where "pre = pre_project point (verts m ! node) vn"
    define cpp where "cpp = map (\<lambda>j. plane_dist pre (verts m ! fst (connectivity m ! (triangles ! j))) (ns ! j))
                      [0..<length triangles]"
    note r = project_from_finite(2) [OF ok tr(2) ns vn pre_def cpp_def]
    show ?thesis
    proof (cases "find (accepts m pre triangles ns cpp) (argsort_abs cpp)")
      case None
      with r show ?thesis by simp
    next
      case (Some k)
      then have "k \<in> set (argsort_abs cpp)" by (auto simp: find_Some_iff)
      then have "k < length triangles" by (simp add: argsort_abs_set cpp_def)
      then have "triangles ! k \<in> set triangles" by simp
      with r Some show ?thesis by auto
    qed
  qed
qed

text \<open>
  C5. On a mesh built by the constructor, \<^verbatim>\<open>project_new_point\<close> raises the
  unconnected-vertex exception exactly when the vertex that the spatial index returns for
  the query point has an empty list of incident triangles; in every other case it returns
  a pair of a point and a triangle index. (Degenerate triangles need not be excluded: with
  them the pair holds a NaN point and the index \<open>-1\<close>.)
\<close>

theorem unconnected_iff:
  assumes "Mesh_init vs cs = Inr m"
  shows "(snd (project_new_point m point) = Inl UnconnectedVertex
            \<longleftrightarrow> tris_of (node_to_tri m) (kd_query (tree m) point) = [])
       \<and> (tris_of (node_to_tri m) (kd_query (tree m) point) \<noteq> []
            \<longrightarrow> (\<exists>pp i. snd (project_new_point m point) = Inr (pp, i)))"
proof (cases "tris_of (node_to_tri m) (kd_query (tree m) point) = []")
  case True
  then show ?thesis by (simp add: project_new_point_snd)
next
  case False
  from project_from_built [OF assms refl False, of point]
  obtain pp i where "project_from m (kd_query (tree m) point)
      (tris_of (node_to_tri m) (kd_query (tree m) point)) point = Inr (pp, i)"
    by blast
  with False show ?thesis by (simp add: project_new_point_snd)
qed

theorem unconnected_iff_witness:
  "Mesh_init loose_verts loose_conn = Inr loose_mesh
   \<and> tris_of (node_to_tri loose_mesh) (kd_query (tree loose_mesh) (5, 5, 5)) = []
   \<and> snd (project_new_point loose_mesh (5, 5, 5)) = Inl UnconnectedVertex
   \<and> tris_of (node_to_tri loose_mesh) (kd_query (tree loose_mesh) (0, 0, 1)) \<noteq> []
   \<and> snd (project_new_point loose_mesh (0, 0, 1)) = Inr (Vec (0, 0, 0), 0)"
  using unconnected_iff [OF loose_mesh_built, of "(5, 5, 5)"] unconnected_iff [OF loose_mesh_built, of "(0, 0, 1)"]
    loose_mesh_built
  by (simp add: loose_mesh_def loose_verts_def loose_conn_def project_defs tris_of_def)

lemma cpp_loop_frame: "cpp_loop (m\<lparr>node_to_tri := d\<rparr>) pre ts ns = cpp_loop m pre ts ns"
  by (induction ts arbitrary: ns) (simp_all cong: sum.case_cong)

lemma scan_frame:
  "scan (m\<lparr>node_to_tri := d\<rparr>) pre triangles ns cpp order = scan m pre triangles ns cpp order"
  by (induction order) (simp_all add: Let_def cong: prod.case_cong if_cong)

lemma project_from_frame:
  "project_from (m\<lparr>node_to_tri := d\<rparr>) node triangles point = project_from m node triangles point"
  by (simp add: project_from_def nan_rounds_def cpp_loop_frame scan_frame
      cong: option.case_cong farray.case_cong sum.case_cong if_cong)

lemma project_after_call:
  "snd (project_new_point (fst (project_new_point m point)) q) = snd (project_new_point m q)"
proof -
  let ?d = "snd (defaultdict_get (node_to_tri m) (kd_query (tree m) point))"
  have t: "tris_of ?d v = tris_of (node_to_tri m) v" for v
    by (simp add: defaultdict_get_snd tris_of_def)
  show ?thesis
    by (simp add: project_new_point_fst project_new_point_snd [of "m\<lparr>node_to_tri := ?d\<rparr>"]
        project_new_point_snd [of m] t project_from_frame)
qed

text \<open>
  C3, as amended. A call of \<^verbatim>\<open>project_new_point\<close> never changes \<^verbatim>\<open>verts\<close>,
  \<^verbatim>\<open>connectivity\<close>, \<^verbatim>\<open>normals\<close> or the spatial index, nor the list of incident triangles
  that \<^verbatim>\<open>node_to_tri\<close> gives for any vertex. The dictionary \<^verbatim>\<open>node_to_tri\<close> itself gains
  the entry \<open>node \<mapsto> []\<close> when the nearest vertex \<open>node\<close> is not one of its keys, and is
  unchanged otherwise; a call that does not raise the unconnected-vertex exception leaves
  the whole mesh unchanged. The result of any later call is the same as on the mesh before
  the call.
\<close>

theorem project_frame:
  "verts (fst (project_new_point m point)) = verts m
   \<and> connectivity (fst (project_new_point m point)) = connectivity m
   \<and> normals (fst (project_new_point m point)) = normals m
   \<and> tree (fst (project_new_point m point)) = tree m
   \<and> (\<forall>v. tris_of (node_to_tri (fst (project_new_point m point))) v = tris_of (node_to_tri m) v)
   \<and> node_to_tri (fst (project_new_point m point)) =
       (if node_to_tri m (kd_query (tree m) point) = None
        then (node_to_tri m)(kd_query (tree m) point \<mapsto> [])
        else node_to_tri m)
   \<and> (snd (project_new_point m point) \<noteq> Inl UnconnectedVertex
        \<longrightarrow> fst (project_new_point m point) = m)
   \<and> (\<forall>q. snd (project_new_point (fst (project_new_point m point)) q)
          = snd (project_new_point m q))"
proof -
  let ?node = "kd_query (tree m) point"
  have d: "node_to_tri (fst (project_new_point m point)) =
       (if node_to_tri m ?node = None then (node_to_tri m)(?node \<mapsto> []) else node_to_tri m)"
    by (simp add: project_new_point_fst defaultdict_get_snd)
  have t: "tris_of (node_to_tri (fst (project_new_point m point))) v = tris_of (node_to_tri m) v" for v
    unfolding d by (simp add: tris_of_def)
  have r: "fst (project_new_point m point) = m"
    if "snd (project_new_point m point) \<noteq> Inl UnconnectedVertex"
  proof -
    from that have "tris_of (node_to_tri m) ?node \<noteq> []"
      by (auto simp: project_new_point_snd split: if_splits)
    then have "node_to_tri m ?node \<noteq> None" by (auto simp: tris_of_def split: option.splits)
    then show ?thesis by (auto simp: project_new_point_fst defaultdict_get_snd)
  qed
  have f: "verts (fst (project_new_point m point)) = verts m"
    "connectivity (fst (project_new_point m point)) = connectivity m"
    "normals (fst (project_new_point m point)) = normals m"
    "tree (fst (project_new_point m point)) = tree m"
    by (simp_all add: project_new_point_fst)
  have t': "\<forall>v. tris_of (node_to_tri (fst (project_new_point m point))) v = tris_of (node_to_tri m) v"
    using t by blast
  have r': "snd (project_new_point m point) \<noteq> Inl UnconnectedVertex
        \<longrightarrow> fst (project_new_point m point) = m"
    using r by blast
  have a: "\<forall>q. snd (project_new_point (fst (project_new_point m point)) q)
          = snd (project_new_point m q)"
    using project_after_call by blast
  show ?thesis by (intro conjI f d t' r' a)
qed

theorem project_frame_witness:
  "snd (project_new_point quad_mesh (1 / 2, 1 / 2, 5)) \<noteq> Inl UnconnectedVertex
   \<and> fst (project_new_point quad_mesh (1 / 2, 1 / 2, 5)) = quad_mesh
   \<and> node_to_tri loose_mesh (kd_query (tree loose_mesh) (5, 5, 5)) = None
   \<and> node_to_tri (fst (project_new_point loose_mesh (5, 5, 5)))
       = (node_to_tri loose_mesh)(kd_query (tree loose_mesh) (5, 5, 5) \<mapsto> [])
   \<and> tris_of (node_to_tri (fst (project_new_point loose_mesh (5, 5, 5)))) 3
       = tris_of (node_to_tri loose_mesh) 3"
proof -
  have q: "snd (project_new_point quad_mesh (1 / 2, 1 / 2, 5)) \<noteq> Inl UnconnectedVertex"
    by (simp add: quad_mesh_def quad_verts_def quad_conn_def project_defs sqrt_quarter)
  with project_frame [of quad_mesh "(1 / 2, 1 / 2, 5)"]
  have q': "fst (project_new_point quad_mesh (1 / 2, 1 / 2, 5)) = quad_mesh" by blast
  have l: "node_to_tri loose_mesh (kd_query (tree loose_mesh) (5, 5, 5)) = None"
    by (simp add: loose_mesh_def loose_verts_def dist2_def)
  with project_frame [of loose_mesh "(5, 5, 5)"]
  have l': "node_to_tri (fst (project_new_point loose_mesh (5, 5, 5)))
       = (node_to_tri loose_mesh)(kd_query (tree loose_mesh) (5, 5, 5) \<mapsto> [])"
    by presburger
  from project_frame [of loose_mesh "(5, 5, 5)"]
  have l'': "tris_of (node_to_tri (fst (project_new_point loose_mesh (5, 5, 5)))) 3
       = tris_of (node_to_tri loose_mesh) 3"
    by blast
  from q q' l l' l'' show ?thesis by blast
qed

text \<open>
  Against C3 as stated: on the mesh of the triangle \<open>(0,1,2)\<close> with a fourth vertex
  \<open>(5,5,5)\<close> that no triangle uses, the query \<open>(5,5,5)\<close> raises the unconnected-vertex
  exception, and the key \<open>3\<close>, absent from \<^verbatim>\<open>node_to_tri\<close> before the call, is present after
  it.
\<close>

theorem unconnected_call_mutates:
  "Mesh_init loose_verts loose_conn = Inr loose_mesh
   \<and> snd (project_new_point loose_mesh (5, 5, 5)) = Inl UnconnectedVertex
   \<and> node_to_tri loose_mesh 3 = None
   \<and> node_to_tri (fst (project_new_point loose_mesh (5, 5, 5))) 3 = Some []
   \<and> fst (project_new_point loose_mesh (5, 5, 5)) \<noteq> loose_mesh"
proof -
  have a: "node_to_tri loose_mesh 3 = None"
    by (simp add: loose_mesh_def)
  have b: "node_to_tri (fst (project_new_point loose_mesh (5, 5, 5))) 3 = Some []"
    by (simp add: loose_mesh_def loose_verts_def loose_conn_def project_defs)
  have c: "snd (project_new_point loose_mesh (5, 5, 5)) = Inl UnconnectedVertex"
    by (simp add: loose_mesh_def loose_verts_def loose_conn_def project_defs)
  from a b have "fst (project_new_point loose_mesh (5, 5, 5)) \<noteq> loose_mesh" by auto
  with a b c loose_mesh_built show ?thesis by simp
qed

text \<open>
  C9. On a mesh built by the constructor the only exception of \<^verbatim>\<open>project_new_point\<close> is
  the unconnected-vertex one. When the mesh has a vertex, every vertex has an incident
  triangle, no triangle is degenerate and the summed normal at every vertex is non-zero,
  the call returns a finite point with \<open>-1\<close> or the index of a triangle incident to the
  nearest vertex. (The model is a total function: the call terminates.)
\<close>

theorem project_returns:
  assumes "Mesh_init vs cs = Inr m"
  shows "(\<forall>e. snd (project_new_point m point) = Inl e \<longrightarrow> e = UnconnectedVertex)
       \<and> (vs \<noteq> [] \<longrightarrow> (\<forall>v<length vs. tris_of (node_to_tri m) v \<noteq> [])
            \<longrightarrow> (\<forall>t<length cs. normals m ! t \<noteq> Nan)
            \<longrightarrow> (\<forall>v<length vs. vertex_normal m (tris_of (node_to_tri m) v) \<noteq> Nan)
            \<longrightarrow> (\<exists>pt i. snd (project_new_point m point) = Inr (Vec pt, i)
                   \<and> (i = - 1 \<or> (\<exists>t \<in> set (tris_of (node_to_tri m) (kd_query (tree m) point)). i = int t))))"
proof (intro conjI impI allI)
  fix e assume e: "snd (project_new_point m point) = Inl e"
  show "e = UnconnectedVertex"
  proof (cases "tris_of (node_to_tri m) (kd_query (tree m) point) = []")
    case True
    with e show ?thesis by (simp add: project_new_point_snd)
  next
    case False
    from project_from_built [OF assms refl False, of point] e False show ?thesis
      by (auto simp: project_new_point_snd)
  qed
next
  let ?node = "kd_query (tree m) point"
  assume ne: "vs \<noteq> []"
    and conn: "\<forall>v<length vs. tris_of (node_to_tri m) v \<noteq> []"
    and vn: "\<forall>v<length vs. vertex_normal m (tris_of (node_to_tri m) v) \<noteq> Nan"
  have "tree m = vs" using assms by (simp add: Mesh_init_fields)
  with kd_query_bound [OF ne, of point] have n: "?node < length vs" by simp
  with conn have tr: "tris_of (node_to_tri m) ?node \<noteq> []" by simp
  from n vn have fin: "vertex_normal m (tris_of (node_to_tri m) ?node) \<noteq> Nan" by simp
  from project_from_built [OF assms refl tr, of point] fin
  obtain pp i where r: "project_from m ?node (tris_of (node_to_tri m) ?node) point = Inr (pp, i)"
    "i = - 1 \<or> (\<exists>t \<in> set (tris_of (node_to_tri m) ?node). i = int t)" "pp \<noteq> Nan"
    by blast
  from r(3) obtain pt where "pp = Vec pt" by (cases pp) auto
  with r(1) tr have "snd (project_new_point m point) = Inr (Vec pt, i)"
    by (simp add: project_new_point_snd)
  with r(2) show "\<exists>pt i. snd (project_new_point m point) = Inr (Vec pt, i)
                   \<and> (i = - 1 \<or> (\<exists>t \<in> set (tris_of (node_to_tri m) ?node). i = int t))"
    by blast
qed

lemma quad_connected: "\<forall>v<length quad_verts. tris_of (node_to_tri quad_mesh) v \<noteq> []"
  by (simp add: quad_verts_def quad_mesh_def tris_of_def less_Suc_eq)

lemma quad_no_nan: "\<forall>t<length quad_conn. normals quad_mesh ! t \<noteq> Nan"
  by (simp add: quad_conn_def quad_mesh_def less_Suc_eq)

lemma quad_vertex_normals:
  "\<forall>v<length quad_verts. vertex_normal quad_mesh (tris_of (node_to_tri quad_mesh) v) \<noteq> Nan"
  by (simp add: quad_verts_def quad_mesh_def tris_of_def less_Suc_eq vertex_normal_def unit_vec_def
      linalg_norm_def)

theorem project_returns_witness:
  "Mesh_init quad_verts quad_conn = Inr quad_mesh \<and> quad_verts \<noteq> []
   \<and> list_all (\<lambda>v. tris_of (node_to_tri quad_mesh) v \<noteq> []) [0..<length quad_verts]
   \<and> list_all (\<lambda>t. normals quad_mesh ! t \<noteq> Nan) [0..<length quad_conn]
   \<and> list_all (\<lambda>v. vertex_normal quad_mesh (tris_of (node_to_tri quad_mesh) v) \<noteq> Nan)
         [0..<length quad_verts]
   \<and> (\<exists>pt i. snd (project_new_point quad_mesh (7, 8, 9)) = Inr (Vec pt, i)
        \<and> (i = - 1 \<or> (\<exists>t \<in> set (tris_of (node_to_tri quad_mesh) (kd_query (tree quad_mesh) (7, 8, 9))). i = int t)))"
proof -
  have ne: "quad_verts \<noteq> []" by (simp add: quad_verts_def)
  from project_returns [OF quad_mesh_built, of "(7, 8, 9)"] ne quad_connected quad_no_nan quad_vertex_normals
  have "\<exists>pt i. snd (project_new_point quad_mesh (7, 8, 9)) = Inr (Vec pt, i)
        \<and> (i = - 1 \<or> (\<exists>t \<in> set (tris_of (node_to_tri quad_mesh) (kd_query (tree quad_mesh) (7, 8, 9))). i = int t))"
    by blast
  with quad_mesh_built ne quad_connected quad_no_nan quad_vertex_normals show ?thesis
    by (simp add: list_all_iff)
qed

section \<open>The order of the candidates\<close>

lemma np_cross_swap: "np_cross v u = vneg (np_cross u v)"
  by (cases u, cases v) simp

lemma linalg_norm_vneg: "linalg_norm (vneg v) = linalg_norm v"
  by (cases v) (simp add: linalg_norm_def)

lemma in_triangle_spec:
  "np_cross (vsub pb pa) (vsub pc pa) \<noteq> (0, 0, 0) \<Longrightarrow>
     in_triangle pa pb pc p = spec_accept pa pb pc p"
proof -
  assume "np_cross (vsub pb pa) (vsub pc pa) \<noteq> (0, 0, 0)"
  then have "linalg_norm (np_cross (vsub pc pa) (vsub pb pa)) \<noteq> 0"
    by (simp add: np_cross_swap [of "vsub pc pa"] linalg_norm_vneg linalg_norm_zero)
  then show ?thesis by (auto simp: in_triangle_def spec_accept_def Let_def)
qed

lemma built_candidate_nondegenerate:
  assumes b: "Mesh_init vs cs = Inr m"
    and ns: "finite_rows (map (\<lambda>tri. normals m ! tri) (tris_of (node_to_tri m) node)) = Some ns"
    and k: "k < length (tris_of (node_to_tri m) node)"
  shows "normals m ! (tris_of (node_to_tri m) node ! k) = Vec (ns ! k)"
    and "raw_normal (verts m) (connectivity m ! (tris_of (node_to_tri m) node ! k)) \<noteq> (0, 0, 0)"
    and "linalg_norm (ns ! k) = 1"
proof -
  let ?ts = "tris_of (node_to_tri m) node"
  have f: "verts m = vs" "connectivity m = cs" using b by (simp_all add: Mesh_init_fields)
  from finite_rows_Some [OF ns] have "map (\<lambda>tri. normals m ! tri) ?ts ! k = map Vec ns ! k" by simp
  moreover have "length ns = length ?ts" using finite_rows_Some [OF ns] by (metis length_map)
  ultimately show v: "normals m ! (?ts ! k) = Vec (ns ! k)" using k by simp
  from k have "?ts ! k \<in> set ?ts" by simp
  from Mesh_init_incident [OF b this] have "?ts ! k < length cs" by simp
  from Mesh_init_normals(2) [OF b this] v
  have u: "unit_vec (raw_normal vs (cs ! (?ts ! k))) = Vec (ns ! k)" by simp
  then show "raw_normal (verts m) (connectivity m ! (?ts ! k)) \<noteq> (0, 0, 0)"
    by (auto simp: unit_vec_cases f split: if_splits)
  from u show "linalg_norm (ns ! k) = 1" by (rule unit_vec_norm)
qed

lemma built_accepts_spec:
  assumes b: "Mesh_init vs cs = Inr m"
    and ns: "finite_rows (map (\<lambda>tri. normals m ! tri) (tris_of (node_to_tri m) node)) = Some ns"
    and k: "k < length (tris_of (node_to_tri m) node)"
  shows "accepts m pre (tris_of (node_to_tri m) node) ns cpp k
       = spec_accepts m pre (tris_of (node_to_tri m) node) ns cpp k"
proof -
  obtain a b' c where tr: "connectivity m ! (tris_of (node_to_tri m) node ! k) = (a, b', c)"
    by (cases "connectivity m ! (tris_of (node_to_tri m) node ! k)") auto
  from built_candidate_nondegenerate(2) [OF b ns k] tr
  have "np_cross (vsub (verts m ! b') (verts m ! a)) (vsub (verts m ! c) (verts m ! a)) \<noteq> (0, 0, 0)"
    by (simp add: raw_normal_def)
  from in_triangle_spec [OF this] tr show ?thesis
    by (simp add: accepts_def spec_accepts_def)
qed

lemma find_first:
  "list_all (\<lambda>j. \<not> P j) before \<Longrightarrow> P k \<Longrightarrow> find P (before @ k # after) = Some k"
  by (induction before) auto

lemma find_none: "list_all (\<lambda>j. \<not> P j) xs \<Longrightarrow> find P xs = None"
  by (induction xs) auto

lemma built_finite_branch:
  assumes b: "Mesh_init vs cs = Inr m"
    and tr: "triangles = tris_of (node_to_tri m) (kd_query (tree m) point)" "triangles \<noteq> []"
    and ns: "finite_rows (map (\<lambda>tri. normals m ! tri) triangles) = Some ns"
    and vn: "unit_vec (np_sum ns) = Vec vn"
    and pre: "pre = pre_project point (verts m ! kd_query (tree m) point) vn"
    and cpp: "cpp_loop m pre triangles ns = Inr cpp"
  shows "cpp = map (\<lambda>j. plane_dist pre (verts m ! fst (connectivity m ! (triangles ! j))) (ns ! j))
                 [0..<length triangles]"
    and "snd (project_new_point m point) =
       Inr (case find (accepts m pre triangles ns cpp) (argsort_abs cpp) of
              Some k \<Rightarrow> (Vec (tri_project pre (cpp ! k) (ns ! k)), int (triangles ! k))
            | None \<Rightarrow> (Vec (tri_project pre (cpp ! last (argsort_abs cpp)) (ns ! last (argsort_abs cpp))), - 1))"
proof -
  let ?node = "kd_query (tree m) point"
  have ok: "list_all (corners_ok m) triangles" "list_all (\<lambda>tri. tri < length (normals m)) triangles"
    "?node < length (verts m)"
    using built_corners_ok [OF b, of ?node] built_normals_in_range [OF b, of ?node]
      built_node_in_range [OF b, of ?node] tr by simp_all
  define cpp' where "cpp' = map (\<lambda>j. plane_dist pre (verts m ! fst (connectivity m ! (triangles ! j))) (ns ! j))
                      [0..<length triangles]"
  from project_from_finite(1) [OF ok tr(2) ns vn pre cpp'_def] cpp have e: "cpp = cpp'" by simp
  then show "cpp = map (\<lambda>j. plane_dist pre (verts m ! fst (connectivity m ! (triangles ! j))) (ns ! j))
                 [0..<length triangles]"
    by (simp add: cpp'_def)
  note p = project_from_finite(2) [OF ok tr(2) ns vn pre cpp'_def]
  show "snd (project_new_point m point) =
       Inr (case find (accepts m pre triangles ns cpp) (argsort_abs cpp) of
              Some k \<Rightarrow> (Vec (tri_project pre (cpp ! k) (ns ! k)), int (triangles ! k))
            | None \<Rightarrow> (Vec (tri_project pre (cpp ! last (argsort_abs cpp)) (ns ! last (argsort_abs cpp))), - 1))"
    unfolding e project_new_point_snd tr(1) [symmetric] using tr(2) p by simp
qed

text \<open>
  C4. On a built mesh with finite candidate normals and a non-zero summed normal, let
  \<open>pre\<close> be the pre-projection of the query point and \<open>cpp\<close> the plane distances
  \<open>d_t = (pre - p_{t,a}) . normal(t)\<close> of the candidates. The candidates are tried in
  ascending order of \<open>|d_t|\<close>; if the candidate at position \<open>k\<close> passes the acceptance test of
  the specification and every candidate before it in that order fails it, the call returns
  \<open>(pre - d_k . normal(k), triangles[k])\<close>, so no later candidate is returned.
\<close>

theorem first_accepted_returned:
  assumes b: "Mesh_init vs cs = Inr m"
    and tr: "triangles = tris_of (node_to_tri m) (kd_query (tree m) point)"
    and ns: "finite_rows (map (\<lambda>tri. normals m ! tri) triangles) = Some ns"
    and vn: "unit_vec (np_sum ns) = Vec vn"
    and pre: "pre = pre_project point (verts m ! kd_query (tree m) point) vn"
    and cpp: "cpp_loop m pre triangles ns = Inr cpp"
    and order: "argsort_abs cpp = before @ k # after"
    and rej: "list_all (\<lambda>j. \<not> spec_accepts m pre triangles ns cpp j) before"
    and acc: "spec_accepts m pre triangles ns cpp k"
  shows "snd (project_new_point m point)
           = Inr (Vec (vsub pre (smul (cpp ! k) (ns ! k))), int (triangles ! k))
       \<and> sorted (map (\<lambda>j. \<bar>cpp ! j\<bar>) (before @ k # after))
       \<and> distinct (before @ k # after)
       \<and> set (before @ k # after) = {0..<length triangles}
       \<and> list_all (\<lambda>j. normals m ! (triangles ! j) = Vec (ns ! j)
             \<and> cpp ! j = np_dot (vsub pre (verts m ! fst (connectivity m ! (triangles ! j)))) (ns ! j))
           [0..<length triangles]"
proof -
  have lc: "length cpp = length (argsort_abs cpp)" by (simp add: argsort_abs_length)
  have len: "length ns = length triangles"
    using finite_rows_Some [OF ns] by (metis length_map)
  have lt: "length cpp = length triangles"
  proof (cases "triangles = []")
    case True
    with cpp show ?thesis by simp
  next
    case False
    from built_finite_branch(1) [OF b tr False ns vn pre cpp] show ?thesis by simp
  qed
  with lc order have ne: "triangles \<noteq> []" by auto
  note fb = built_finite_branch [OF b tr ne ns vn pre cpp]
  have in_range: "j < length triangles" if "j \<in> set (argsort_abs cpp)" for j
    using that lt by (simp add: argsort_abs_set)
  have eqv: "accepts m pre triangles ns cpp j = spec_accepts m pre triangles ns cpp j"
    if "j \<in> set (argsort_abs cpp)" for j
    using built_accepts_spec [OF b ns [unfolded tr], of j pre cpp] in_range [OF that]
    by (simp add: tr)
  have rej': "list_all (\<lambda>j. \<not> accepts m pre triangles ns cpp j) before"
    using rej eqv order by (simp add: list_all_iff)
  have acc': "accepts m pre triangles ns cpp k"
    using acc eqv order by simp
  have "find (accepts m pre triangles ns cpp) (argsort_abs cpp) = Some k"
    unfolding order by (rule find_first [OF rej' acc'])
  with fb(2) have r: "snd (project_new_point m point)
           = Inr (Vec (vsub pre (smul (cpp ! k) (ns ! k))), int (triangles ! k))"
    by (simp add: tri_project_def)
  have s: "sorted (map (\<lambda>j. \<bar>cpp ! j\<bar>) (before @ k # after))"
    using argsort_abs_sorted [of cpp] by (simp only: order)
  have d: "distinct (before @ k # after)"
    using argsort_abs_distinct [of cpp] by (simp only: order)
  have st: "set (before @ k # after) = {0..<length triangles}"
    using argsort_abs_set [of cpp] lt by (simp only: order)
  have c: "normals m ! (triangles ! j) = Vec (ns ! j)
      \<and> cpp ! j = np_dot (vsub pre (verts m ! fst (connectivity m ! (triangles ! j)))) (ns ! j)"
    if "j < length triangles" for j
  proof -
    from built_candidate_nondegenerate(1) [OF b ns [unfolded tr], of j] that
    have "normals m ! (triangles ! j) = Vec (ns ! j)" by (simp add: tr)
    moreover from fb(1) that have "cpp ! j = plane_dist pre (verts m ! fst (connectivity m ! (triangles ! j))) (ns ! j)"
      by simp
    ultimately show ?thesis by (simp add: plane_dist_def)
  qed
  then have l: "list_all (\<lambda>j. normals m ! (triangles ! j) = Vec (ns ! j)
             \<and> cpp ! j = np_dot (vsub pre (verts m ! fst (connectivity m ! (triangles ! j)))) (ns ! j))
           [0..<length triangles]"
    by (simp add: list_all_iff)
  from r s d st l show ?thesis by blast
qed

text \<open>
  C1, as amended. When the nearest vertex has incident triangles and no candidate passes
  the acceptance test, the call returns the index \<open>-1\<close> with the projection computed in the
  last round of the loop, that of the last candidate in ascending order of \<open>|d_t|\<close>: a
  candidate whose plane is farthest from the pre-projected point (maximal \<open>|d_t|\<close>).
\<close>

theorem miss_returns_last:
  assumes b: "Mesh_init vs cs = Inr m"
    and tr: "triangles = tris_of (node_to_tri m) (kd_query (tree m) point)" "triangles \<noteq> []"
    and ns: "finite_rows (map (\<lambda>tri. normals m ! tri) triangles) = Some ns"
    and vn: "unit_vec (np_sum ns) = Vec vn"
    and pre: "pre = pre_project point (verts m ! kd_query (tree m) point) vn"
    and cpp: "cpp_loop m pre triangles ns = Inr cpp"
    and rej: "list_all (\<lambda>j. \<not> spec_accepts m pre triangles ns cpp j) [0..<length triangles]"
  shows "snd (project_new_point m point)
           = Inr (Vec (vsub pre (smul (cpp ! last (argsort_abs cpp)) (ns ! last (argsort_abs cpp)))), - 1)
       \<and> last (argsort_abs cpp) < length triangles
       \<and> list_all (\<lambda>j. \<bar>cpp ! j\<bar> \<le> \<bar>cpp ! last (argsort_abs cpp)\<bar>) [0..<length triangles]"
proof -
  note fb = built_finite_branch [OF b tr ns vn pre cpp]
  have lt: "length cpp = length triangles" using fb(1) by simp
  have rej': "list_all (\<lambda>j. \<not> accepts m pre triangles ns cpp j) (argsort_abs cpp)"
    unfolding list_all_iff
  proof
    fix j assume "j \<in> set (argsort_abs cpp)"
    then have j: "j < length triangles" using lt by (simp add: argsort_abs_set)
    with rej have "\<not> spec_accepts m pre triangles ns cpp j" by (simp add: list_all_iff)
    with built_accepts_spec [OF b ns [unfolded tr(1)], of j pre cpp] j
    show "\<not> accepts m pre triangles ns cpp j" by (simp add: tr(1))
  qed
  from find_none [OF rej'] fb(2)
  have r: "snd (project_new_point m point)
           = Inr (Vec (vsub pre (smul (cpp ! last (argsort_abs cpp)) (ns ! last (argsort_abs cpp)))), - 1)"
    by (simp add: tri_project_def)
  have ne: "argsort_abs cpp \<noteq> []" using argsort_abs_length [of cpp] lt tr(2) by auto
  then have "last (argsort_abs cpp) \<in> set (argsort_abs cpp)" by simp
  then have l: "last (argsort_abs cpp) < length triangles" using lt by (simp add: argsort_abs_set)
  have mx: "list_all (\<lambda>j. \<bar>cpp ! j\<bar> \<le> \<bar>cpp ! last (argsort_abs cpp)\<bar>) [0..<length triangles]"
    using argsort_abs_last_max [of _ cpp] lt by (simp add: list_all_iff)
  from r l mx show ?thesis by blast
qed

section \<open>The pyramid\<close>

lemma linalg_norm_eq: "0 \<le> y \<Longrightarrow> np_dot v v = y * y \<Longrightarrow> linalg_norm v = y"
  by (simp add: linalg_norm_def)

lemma pyramid_norms:
  "linalg_norm (24, 0, 32) = 40" "linalg_norm (0, 24, 32) = 40"
  "linalg_norm (- 24, 0, 32) = 40" "linalg_norm (0, - 24, 32) = 40"
  "linalg_norm (0, - 24, - 32) = 40"
  "linalg_norm (0, 0, 16 / 5) = 16 / 5"
  "linalg_norm (0, - (171 / 25), - (228 / 25)) = 57 / 5"
  "linalg_norm (0, 21 / 25, 28 / 25) = 7 / 5"
  by (rule linalg_norm_eq; simp)+

lemma pyramid_mesh_built: "Mesh_init pyramid_verts pyramid_conn = Inr pyramid_mesh"
proof -
  have "append_tri (append_tri (append_tri (append_tri (append_tri (append_tri
          (append_tri (append_tri (append_tri (append_tri (append_tri (append_tri Map.empty
            0 0) (Suc 0) 0) 2 0) 0 (Suc 0)) 2 (Suc 0)) 3 (Suc 0))
            0 (Suc (Suc 0))) 3 (Suc (Suc 0))) 4 (Suc (Suc 0)))
            0 (Suc (Suc (Suc 0)))) 4 (Suc (Suc (Suc 0)))) (Suc 0) (Suc (Suc (Suc 0)))
      = map_of [(0, [0, Suc 0, 2, 3]), (Suc 0, [0, 3]), (2, [0, Suc 0]), (3, [Suc 0, 2]), (4, [2, 3])]"
    by (rule ext) (simp add: append_tri_def defaultdict_get_def eval_nat_numeral)
  then show ?thesis
    by (simp add: Mesh_init_def pyramid_verts_def pyramid_conn_def pyramid_mesh_def pyramid_normals_def
        raw_normal_def unit_vec_def pyramid_norms)
qed

lemma pyramid_apex:
  "tris_of (node_to_tri pyramid_mesh) (kd_query (tree pyramid_mesh) (4, 5, 10)) = [0, 1, 2, 3]"
  "tris_of (node_to_tri pyramid_mesh) (kd_query (tree pyramid_mesh) (1, 2, 10)) = [0, 1, 2, 3]"
  "kd_query (tree pyramid_mesh) (4, 5, 10) = 0"
  "kd_query (tree pyramid_mesh) (1, 2, 10) = 0"
  by (simp_all add: pyramid_mesh_def pyramid_verts_def dist2_def tris_of_def)

lemma pyramid_rows:
  "finite_rows (map (\<lambda>tri. normals pyramid_mesh ! tri) [0, 1, 2, 3]) = Some pyramid_normals"
  by (simp add: pyramid_mesh_def pyramid_normals_def)

lemma pyramid_vertex_normal: "unit_vec (np_sum pyramid_normals) = Vec (0, 0, 1)"
  by (simp add: pyramid_normals_def unit_vec_def pyramid_norms)

lemma pyramid_pre:
  "pre_project (4, 5, 10) (verts pyramid_mesh ! 0) (0, 0, 1) = (4, 5, 3)"
  "pre_project (1, 2, 10) (verts pyramid_mesh ! 0) (0, 0, 1) = (1, 2, 3)"
  by (simp_all add: pre_project_def pyramid_mesh_def pyramid_verts_def)

lemma pyramid_cpp:
  "cpp_loop pyramid_mesh (4, 5, 3) [0, 1, 2, 3] pyramid_normals = Inr [12 / 5, 3, - (12 / 5), - 3]"
  "cpp_loop pyramid_mesh (1, 2, 3) [0, 1, 2, 3] pyramid_normals = Inr [3 / 5, 6 / 5, - (3 / 5), - (6 / 5)]"
  by (simp_all add: pyramid_mesh_def pyramid_verts_def pyramid_conn_def pyramid_normals_def plane_dist_def)

lemma pyramid_order:
  "argsort_abs [12 / 5, 3, - (12 / 5), - 3] = [0, 2, 1, 3]"
  "argsort_abs [3 / 5, 6 / 5, - (3 / 5), - (6 / 5)] = [0, 2] @ 1 # [3]"
  by (simp_all add: argsort_abs_def upt_rec)

lemma pyramid_miss:
  "list_all (\<lambda>j. \<not> spec_accepts pyramid_mesh (4, 5, 3) [0, 1, 2, 3] pyramid_normals
       [12 / 5, 3, - (12 / 5), - 3] j) [0..<length [0::nat, 1, 2, 3]]"
  by (simp add: upt_rec spec_accepts_def spec_accept_def tri_project_def pyramid_mesh_def pyramid_verts_def
      pyramid_conn_def pyramid_normals_def Let_def)

lemma pyramid_miss_list:
  "list_all (\<lambda>j. \<not> spec_accepts pyramid_mesh (4, 5, 3) [0, 1, 2, 3] pyramid_normals
       [12 / 5, 3, - (12 / 5), - 3] j) [0, 1, 2, 3]"
  by (simp add: spec_accepts_def spec_accept_def tri_project_def pyramid_mesh_def pyramid_verts_def
      pyramid_conn_def pyramid_normals_def Let_def)

lemma pyramid_hit:
  "list_all (\<lambda>j. \<not> spec_accepts pyramid_mesh (1, 2, 3) [0, 1, 2, 3] pyramid_normals
       [3 / 5, 6 / 5, - (3 / 5), - (6 / 5)] j) [0, 2]"
  "spec_accepts pyramid_mesh (1, 2, 3) [0, 1, 2, 3] pyramid_normals
       [3 / 5, 6 / 5, - (3 / 5), - (6 / 5)] 1"
  by (simp_all add: spec_accepts_def spec_accept_def tri_project_def pyramid_mesh_def pyramid_verts_def
      pyramid_conn_def pyramid_normals_def Let_def pyramid_norms)

theorem first_accepted_returned_witness:
  "snd (project_new_point pyramid_mesh (1, 2, 10)) = Inr (Vec (1, 32 / 25, 51 / 25), 1)"
  using first_accepted_returned [OF pyramid_mesh_built pyramid_apex(2) [symmetric] pyramid_rows
      pyramid_vertex_normal pyramid_pre(2) [symmetric, unfolded pyramid_apex(4) [symmetric]]
      pyramid_cpp(2) pyramid_order(2) pyramid_hit]
  by (simp add: pyramid_normals_def)

theorem miss_returns_last_witness:
  "snd (project_new_point pyramid_mesh (4, 5, 10)) = Inr (Vec (4, 16 / 5, 27 / 5), - 1)"
  using miss_returns_last [OF pyramid_mesh_built pyramid_apex(1) [symmetric] _ pyramid_rows
      pyramid_vertex_normal pyramid_pre(1) [symmetric, unfolded pyramid_apex(3) [symmetric]]
      pyramid_cpp(1) pyramid_miss]
  by (simp add: pyramid_normals_def pyramid_order)

text \<open>
  Against C1 as stated: at the apex of the pyramid the query \<open>(4, 5, 10)\<close> has the plane
  distances \<open>12/5, 3, -12/5, -3\<close>; no candidate is accepted, and the point returned with
  \<open>-1\<close> is the projection to the plane of candidate 3, at distance 3, not the projection
  to either of the closest planes (candidates 0 and 2, at distance \<open>12/5\<close>).
\<close>

theorem miss_returns_farthest:
  "list_all (\<lambda>j. \<not> spec_accepts pyramid_mesh (4, 5, 3) [0, 1, 2, 3] pyramid_normals
       [12 / 5, 3, - (12 / 5), - 3] j) [0, 1, 2, 3]
   \<and> snd (project_new_point pyramid_mesh (4, 5, 10)) = Inr (Vec (4, 16 / 5, 27 / 5), - 1)
   \<and> tri_project (4, 5, 3) (- 3) (pyramid_normals ! 3) = (4, 16 / 5, 27 / 5)
   \<and> tri_project (4, 5, 3) (12 / 5) (pyramid_normals ! 0) = (64 / 25, 5, 27 / 25)
   \<and> tri_project (4, 5, 3) (- (12 / 5)) (pyramid_normals ! 2) = (64 / 25, 5, 123 / 25)
   \<and> \<bar>12 / 5\<bar> < \<bar>- 3 :: real\<bar>"
proof -
  have r: "snd (project_new_point pyramid_mesh (4, 5, 10)) = Inr (Vec (4, 16 / 5, 27 / 5), - 1)"
    by (simp add: pyramid_mesh_def pyramid_verts_def pyramid_conn_def pyramid_normals_def project_defs
        pyramid_norms upt_rec)
  have p: "tri_project (4, 5, 3) (- 3) (pyramid_normals ! 3) = (4, 16 / 5, 27 / 5)"
    "tri_project (4, 5, 3) (12 / 5) (pyramid_normals ! 0) = (64 / 25, 5, 27 / 25)"
    "tri_project (4, 5, 3) (- (12 / 5)) (pyramid_normals ! 2) = (64 / 25, 5, 123 / 25)"
    by (simp_all add: tri_project_def pyramid_normals_def)
  from pyramid_miss_list r p show ?thesis by simp
qed

section \<open>Projecting a vertex\<close>

lemma vsub_self: "vsub p p = (0, 0, 0)"
  by (cases p) simp

lemma vsub_zero: "vsub p (0, 0, 0) = p"
  by (cases p) simp

lemma smul_zero: "smul 0 n = (0, 0, 0)"
  by (cases n) simp

lemma np_dot_zero_left: "np_dot (0, 0, 0) x = 0"
  by (cases x) simp

lemma np_cross_zero_right: "np_cross x (0, 0, 0) = (0, 0, 0)"
  by (cases x) simp

lemma np_cross_self: "np_cross x x = (0, 0, 0)"
  by (cases x) simp

lemma np_dot_vdiv: "np_dot x (vdiv y k) = np_dot x y / k"
  by (cases x, cases y) (simp add: add_divide_distrib)

lemma np_dot_cross_left: "np_dot u (np_cross u w) = 0"
  by (cases u, cases w) (simp add: algebra_simps)

lemma np_dot_cross_right: "np_dot w (np_cross u w) = 0"
  by (cases u, cases w) (simp add: algebra_simps)

lemma linalg_norm_origin: "linalg_norm (0, 0, 0) = 0"
  by (simp add: linalg_norm_def)

lemma pre_project_self: "pre_project p p vn = p"
  by (simp add: pre_project_def vsub_self np_dot_zero_left smul_zero vsub_zero)

lemma tri_project_zero: "tri_project p 0 n = p"
  by (simp add: tri_project_def smul_zero vsub_zero)

lemma in_triangle_corner:
  assumes nd: "np_cross (vsub pb pa) (vsub pc pa) \<noteq> (0, 0, 0)"
  shows "in_triangle pa pb pc pa" and "in_triangle pa pb pc pb" and "in_triangle pa pb pc pc"
proof -
  let ?u = "vsub pb pa" and ?v = "vsub pc pa"
  let ?vxu = "np_cross ?v ?u"
  have nz: "linalg_norm ?vxu \<noteq> 0"
    using nd by (simp add: np_cross_swap [of ?v] linalg_norm_vneg linalg_norm_zero)
  have uv: "np_cross ?u ?v = vneg ?vxu"
    by (rule np_cross_swap)
  show "in_triangle pa pb pc pa"
    using nz
    by (simp add: in_triangle_def Let_def vsub_self np_cross_zero_right np_dot_zero_left
        linalg_norm_origin)
  show "in_triangle pa pb pc pb"
    using nz
    by (simp add: in_triangle_def Let_def np_cross_self np_dot_zero_left linalg_norm_origin
        np_dot_self_nonneg)
  show "in_triangle pa pb pc pc"
    using nz
    by (simp add: in_triangle_def Let_def np_cross_self np_dot_zero_left linalg_norm_origin
        uv np_dot_self_nonneg linalg_norm_vneg)
qed

lemma plane_dist_corner:
  assumes "p = pa \<or> p = pb \<or> p = pc"
  shows "plane_dist p pa (vdiv (np_cross (vsub pb pa) (vsub pc pa)) k) = 0"
  using assms
  by (auto simp: plane_dist_def np_dot_vdiv vsub_self np_dot_zero_left np_dot_cross_left
      np_dot_cross_right)

lemma argsort_abs_zeros:
  assumes "list_all (\<lambda>d. d = 0) cpp"
  shows "argsort_abs cpp = [0..<length cpp]"
proof -
  have z: "cpp ! k = 0" if "k < length cpp" for k
    using assms that by (simp add: list_all_length)
  have "sorted (map (\<lambda>k. \<bar>cpp ! k\<bar>) [0..<length cpp])"
    by (simp add: sorted_iff_nth_mono z)
  then show ?thesis
    unfolding argsort_abs_def by (rule sort_key_id_if_sorted)
qed


text \<open>
  In exact arithmetic, projecting a vertex succeeds. Let \<open>v\<close> be a vertex of a built mesh
  that the spatial index returns for its own position, with at least one incident
  triangle, every incident triangle non-degenerate and a non-zero summed normal. Then the
  projection of the position of \<open>v\<close> is that position, with the first triangle of
  \<^verbatim>\<open>node_to_tri[v]\<close>. Every plane distance is exactly 0 and one of the two sign tests
  holds with equality, so the statement is about the exact values only.
\<close>

lemma vertex_self_projection_exact:
  assumes b: "Mesh_init vs cs = Inr m"
    and near: "kd_query (tree m) (verts m ! v) = v"
    and tr: "tris_of (node_to_tri m) v \<noteq> []"
    and nd: "list_all (\<lambda>t. raw_normal (verts m) (connectivity m ! t) \<noteq> (0, 0, 0))
               (tris_of (node_to_tri m) v)"
    and vn: "vertex_normal m (tris_of (node_to_tri m) v) \<noteq> Nan"
  shows "snd (project_new_point m (verts m ! v))
           = Inr (Vec (verts m ! v), int (hd (tris_of (node_to_tri m) v)))
       \<and> hd (tris_of (node_to_tri m) v) \<in> set (tris_of (node_to_tri m) v)"
proof -
  let ?ts = "tris_of (node_to_tri m) v"
  let ?p = "verts m ! v"
  have f: "verts m = vs" "connectivity m = cs" using b by (simp_all add: Mesh_init_fields)
  from vn obtain ns vnv where ns: "finite_rows (map (\<lambda>tri. normals m ! tri) ?ts) = Some ns"
    and u: "unit_vec (np_sum ns) = Vec vnv"
    by (cases "unit_vec (np_sum (the (finite_rows (map (\<lambda>tri. normals m ! tri) ?ts))))")
       (auto simp: vertex_normal_def split: option.splits)
  define cpp where "cpp = map (\<lambda>j. plane_dist ?p (verts m ! fst (connectivity m ! (?ts ! j))) (ns ! j))
                      [0..<length ?ts]"
  have ok: "list_all (corners_ok m) ?ts" "list_all (\<lambda>tri. tri < length (normals m)) ?ts"
    "v < length (verts m)"
    using built_corners_ok [OF b, of v] built_normals_in_range [OF b, of v]
      built_node_in_range [OF b tr] by simp_all
  have pre': "?p = pre_project ?p (verts m ! v) vnv" by (simp add: pre_project_self)
  note r = project_from_finite(2) [OF ok tr ns u pre' cpp_def]
  have lc: "length cpp = length ?ts" by (simp add: cpp_def)
  have corner: "\<exists>a b' c. connectivity m ! (?ts ! j) = (a, b', c)
        \<and> (?p = verts m ! a \<or> ?p = verts m ! b' \<or> ?p = verts m ! c)
        \<and> np_cross (vsub (verts m ! b') (verts m ! a)) (vsub (verts m ! c) (verts m ! a)) \<noteq> (0, 0, 0)
        \<and> ns ! j = vdiv (np_cross (vsub (verts m ! b') (verts m ! a)) (vsub (verts m ! c) (verts m ! a)))
             (linalg_norm (np_cross (vsub (verts m ! b') (verts m ! a)) (vsub (verts m ! c) (verts m ! a))))"
    if j: "j < length ?ts" for j
  proof -
    obtain a b' c where t: "connectivity m ! (?ts ! j) = (a, b', c)"
      by (cases "connectivity m ! (?ts ! j)") auto
    from j have mem: "?ts ! j \<in> set ?ts" by simp
    from Mesh_init_incident [OF b mem] t have "v = a \<or> v = b' \<or> v = c"
      and lt: "?ts ! j < length cs"
      by (auto simp: f)
    then have c1: "?p = verts m ! a \<or> ?p = verts m ! b' \<or> ?p = verts m ! c" by auto
    from nd mem t have c2: "np_cross (vsub (verts m ! b') (verts m ! a)) (vsub (verts m ! c) (verts m ! a)) \<noteq> (0, 0, 0)"
      by (auto simp: list_all_iff raw_normal_def)
    from built_candidate_nondegenerate(1) [OF b ns j] Mesh_init_normals(2) [OF b lt]
    have "unit_vec (raw_normal vs (cs ! (?ts ! j))) = Vec (ns ! j)" by simp
    with t c2 have c3: "ns ! j = vdiv (np_cross (vsub (verts m ! b') (verts m ! a)) (vsub (verts m ! c) (verts m ! a)))
             (linalg_norm (np_cross (vsub (verts m ! b') (verts m ! a)) (vsub (verts m ! c) (verts m ! a))))"
      by (simp add: unit_vec_cases raw_normal_def f)
    from t c1 c2 c3 show ?thesis by blast
  qed
  have zero: "cpp ! j = 0" if j: "j < length ?ts" for j
  proof -
    from corner [OF j] obtain a b' c where t: "connectivity m ! (?ts ! j) = (a, b', c)"
      and c1: "?p = verts m ! a \<or> ?p = verts m ! b' \<or> ?p = verts m ! c"
      and c3: "ns ! j = vdiv (np_cross (vsub (verts m ! b') (verts m ! a)) (vsub (verts m ! c) (verts m ! a)))
             (linalg_norm (np_cross (vsub (verts m ! b') (verts m ! a)) (vsub (verts m ! c) (verts m ! a))))"
      by blast
    have "cpp ! j = plane_dist ?p (verts m ! a) (ns ! j)"
      using j t by (simp add: cpp_def)
    also have "\<dots> = 0" unfolding c3 by (rule plane_dist_corner [OF c1])
    finally show ?thesis .
  qed
  then have "list_all (\<lambda>d. d = 0) cpp" by (simp add: list_all_length lc)
  then have order: "argsort_abs cpp = [0..<length ?ts]"
    using argsort_abs_zeros [of cpp] lc by simp
  from tr have pos: "0 < length ?ts" by simp
  have acc: "accepts m ?p ?ts ns cpp 0"
  proof -
    from corner [OF pos] obtain a b' c where t: "connectivity m ! (?ts ! 0) = (a, b', c)"
      and c1: "?p = verts m ! a \<or> ?p = verts m ! b' \<or> ?p = verts m ! c"
      and c2: "np_cross (vsub (verts m ! b') (verts m ! a)) (vsub (verts m ! c) (verts m ! a)) \<noteq> (0, 0, 0)"
      by blast
    from in_triangle_corner [OF c2] c1
    have "in_triangle (verts m ! a) (verts m ! b') (verts m ! c) ?p" by metis
    with t zero [OF pos] show ?thesis by (simp add: accepts_def tri_project_zero)
  qed
  have "[0..<length ?ts] = 0 # [1..<length ?ts]" using pos by (simp add: upt_conv_Cons)
  with acc order have fnd: "find (accepts m ?p ?ts ns cpp) (argsort_abs cpp) = Some 0" by simp
  have "project_from m v ?ts ?p = Inr (Vec ?p, int (?ts ! 0))"
    using r zero [OF pos] unfolding fnd by (simp add: tri_project_zero)
  moreover have "?ts ! 0 = hd ?ts" using tr by (simp add: hd_conv_nth)
  ultimately have "snd (project_new_point m ?p) = Inr (Vec ?p, int (hd ?ts))"
    using tr by (simp add: project_new_point_snd near)
  with tr show ?thesis by simp
qed

section \<open>Rounding\<close>

text \<open>With the identity as rounding function the rounded definitions are the exact ones.\<close>

lemma vsub_r_exact: "vsub_r (\<lambda>x. x) u v = vsub u v"
  by (cases u, cases v) simp

lemma vadd_r_exact: "vadd_r (\<lambda>x. x) u v = vadd u v"
  by (cases u, cases v) simp

lemma smul_r_exact: "smul_r (\<lambda>x. x) k v = smul k v"
  by (cases v) simp

lemma vdiv_r_exact: "vdiv_r (\<lambda>x. x) v k = vdiv v k"
  by (cases v) simp

lemma np_dot_r_exact: "np_dot_r (\<lambda>x. x) u v = np_dot u v"
  by (cases u, cases v) simp

lemma np_cross_r_exact: "np_cross_r (\<lambda>x. x) u v = np_cross u v"
  by (cases u, cases v) simp

lemma vadd_assoc: "vadd (vadd u v) w = vadd u (vadd v w)"
  by (cases u, cases v, cases w) simp

lemma foldl_vadd: "foldl vadd v vs = vadd v (np_sum vs)"
proof (induction vs arbitrary: v)
  case Nil
  show ?case by (cases v) simp
next
  case (Cons a vs)
  then show ?case by (simp add: vadd_assoc)
qed

lemma np_sum_r_exact: "np_sum_r (\<lambda>x. x) vs = np_sum vs"
proof (cases vs)
  case Nil
  then show ?thesis by simp
next
  case (Cons v vs')
  have "vadd_r (\<lambda>x. x) = vadd" by (intro ext) (rule vadd_r_exact)
  with Cons show ?thesis by (simp add: foldl_vadd)
qed

lemmas vec_r_exact = vsub_r_exact vadd_r_exact smul_r_exact vdiv_r_exact np_dot_r_exact
  np_cross_r_exact np_sum_r_exact

lemma linalg_norm_r_exact: "linalg_norm_r (\<lambda>x. x) v = linalg_norm v"
  by (simp add: linalg_norm_r_def linalg_norm_def vec_r_exact)

lemma unit_vec_r_exact: "unit_vec_r (\<lambda>x. x) n = unit_vec n"
  by (simp add: unit_vec_r_def unit_vec_def linalg_norm_r_exact vec_r_exact)

lemma raw_normal_r_exact: "raw_normal_r (\<lambda>x. x) vs tr = raw_normal vs tr"
  by (simp add: raw_normal_r_def raw_normal_def vec_r_exact)

lemma init_loop_r_exact: "init_loop_r (\<lambda>x. x) vs cs i st = init_loop vs cs i st"
proof (induction cs arbitrary: i st)
  case Nil
  then show ?case by simp
next
  case (Cons tr cs)
  obtain a b c where tr: "tr = (a, b, c)" by (cases tr) auto
  obtain d ns where st: "st = (d, ns)" by (cases st) auto
  show ?case
    unfolding tr st by (simp add: Let_def Cons.IH unit_vec_r_exact raw_normal_r_exact)
qed

lemma Mesh_init_r_exact: "Mesh_init_r (\<lambda>x. x) vs cs = Mesh_init vs cs"
  by (simp add: Mesh_init_r_def Mesh_init_def init_loop_r_exact)

lemma in_triangle_r_exact: "in_triangle_r (\<lambda>x. x) pa pb pc p = in_triangle pa pb pc p"
  by (simp add: in_triangle_r_def in_triangle_def linalg_norm_r_exact vec_r_exact)

lemma cpp_loop_r_exact: "cpp_loop_r (\<lambda>x. x) m pre ts ns = cpp_loop m pre ts ns"
  by (induction ts arbitrary: ns)
     (simp_all add: plane_dist_r_def plane_dist_def vec_r_exact cong: sum.case_cong)

lemma scan_r_exact:
  "scan_r (\<lambda>x. x) m pre triangles ns cpp order = scan m pre triangles ns cpp order"
  by (induction order)
     (simp_all add: Let_def tri_project_r_def tri_project_def vec_r_exact in_triangle_r_exact
        cong: prod.case_cong if_cong)

lemma project_from_r_exact:
  "project_from_r (\<lambda>x. x) m node triangles point = project_from m node triangles point"
  by (simp add: project_from_r_def project_from_def unit_vec_r_exact pre_project_r_def pre_project_def
      vec_r_exact cpp_loop_r_exact scan_r_exact
      cong: option.case_cong farray.case_cong sum.case_cong if_cong)

lemma project_new_point_r_exact:
  "project_new_point_r (\<lambda>x. x) m point = project_new_point m point"
  by (simp add: project_new_point_r_def project_new_point_def project_from_r_exact
      cong: prod.case_cong if_cong)

text \<open>
  A value of \<open>fl\<close> is certified by its significand \<open>m\<close> and exponent \<open>-n\<close>: the argument
  times \<open>2 ^ n\<close> lies in the binade of 53-bit significands and within a half of \<open>m\<close>; on a
  tie \<open>m\<close> is even. For a square root the bounds are squared.
\<close>

lemma rne_near:
  assumes "\<bar>y - of_int m\<bar> < 1 / 2"
  shows "rne y = m"
proof -
  from assms have b: "of_int m - 1 / 2 < y" "y < of_int m + 1 / 2" by linarith+
  show ?thesis
  proof (cases "of_int m \<le> y")
    case True
    with b have "\<lfloor>y\<rfloor> = m" by (intro floor_unique) simp_all
    with b show ?thesis by (simp add: rne_def)
  next
    case False
    with b have f: "\<lfloor>y\<rfloor> = m - 1" by (intro floor_unique) simp_all
    with b False show ?thesis by (simp add: rne_def)
  qed
qed

lemma fl_eqI:
  fixes k m :: int
  assumes lo: "2 powr (of_int k + 52) \<le> \<bar>x\<bar>" and hi: "\<bar>x\<bar> < 2 powr (of_int k + 53)"
    and near: "\<bar>x / 2 powr of_int k - of_int m\<bar> < 1 / 2"
  shows "fl x = of_int m * 2 powr of_int k"
proof -
  have pos: "0 < \<bar>x\<bar>" using lo by (smt (verit) powr_gt_zero)
  then have nz: "x \<noteq> 0" by simp
  have "of_int k + 52 \<le> log 2 \<bar>x\<bar>" using lo pos by (simp add: le_log_iff)
  moreover have "log 2 \<bar>x\<bar> < of_int k + 53" using hi pos by (simp add: log_less_iff)
  ultimately have "\<lfloor>log 2 \<bar>x\<bar>\<rfloor> = k + 52" by (intro floor_unique) simp_all
  then have e: "of_int \<lfloor>log 2 \<bar>x\<bar>\<rfloor> - 52 = (of_int k :: real)" by simp
  show ?thesis unfolding fl_def e using nz rne_near [OF near] by simp
qed

lemma pow2_shift: "2 powr (of_int (- int n) + real c) = 2 ^ c / (2::real) ^ n"
proof -
  have "2 powr (of_int (- int n) + real c) = 2 powr (of_int (- int n)) * 2 powr (real c)"
    by (rule powr_add)
  also have "2 powr (of_int (- int n)) = 1 / (2::real) ^ n"
    by (simp add: powr_minus powr_realpow inverse_eq_divide)
  also have "2 powr (real c) = (2::real) ^ c"
    by (simp add: powr_realpow)
  finally show ?thesis by simp
qed

lemma fl_eqI_neg:
  fixes m :: int and n :: nat
  assumes lo: "2 ^ 52 \<le> \<bar>x\<bar> * 2 ^ n" and hi: "\<bar>x\<bar> * 2 ^ n < 2 ^ 53"
    and near: "\<bar>x * 2 ^ n - of_int m\<bar> < 1 / 2"
  shows "fl x = of_int m / 2 ^ n"
proof -
  have p: "2 powr (of_int (- int n)) = 1 / (2::real) ^ n"
    using pow2_shift [of n 0] by simp
  have "2 ^ 52 / (2::real) ^ n \<le> \<bar>x\<bar>" using lo by (simp add: divide_le_eq)
  then have a: "2 powr (of_int (- int n) + 52) \<le> \<bar>x\<bar>"
    using pow2_shift [of n 52] by simp
  have "\<bar>x\<bar> < 2 ^ 53 / (2::real) ^ n" using hi by (simp add: less_divide_eq)
  then have b: "\<bar>x\<bar> < 2 powr (of_int (- int n) + 53)"
    using pow2_shift [of n 53] by simp
  have c: "\<bar>x / 2 powr of_int (- int n) - of_int m\<bar> < 1 / 2"
    using near unfolding p by simp
  from fl_eqI [OF a b c] show ?thesis unfolding p by simp
qed

lemma fl_zero: "fl 0 = 0"
  by (simp add: fl_def)

lemma rne_tie:
  assumes "y = of_int m + 1 / 2 \<or> y = of_int m - 1 / 2" "even m"
  shows "rne y = m"
proof -
  from assms(1) consider "y = of_int m + 1 / 2" | "y = of_int m - 1 / 2" by blast
  then show ?thesis
  proof cases
    case 1
    then have "\<lfloor>y\<rfloor> = m" by (intro floor_unique) simp_all
    with 1 assms(2) show ?thesis by (simp add: rne_def)
  next
    case 2
    then have "\<lfloor>y\<rfloor> = m - 1" by (intro floor_unique) simp_all
    with 2 assms(2) show ?thesis by (simp add: rne_def)
  qed
qed

lemma fl_eqI_tie:
  fixes m :: int and n :: nat
  assumes lo: "2 ^ 52 \<le> \<bar>x\<bar> * 2 ^ n" and hi: "\<bar>x\<bar> * 2 ^ n < 2 ^ 53"
    and tie: "x * 2 ^ n = of_int m + 1 / 2 \<or> x * 2 ^ n = of_int m - 1 / 2" and ev: "even m"
  shows "fl x = of_int m / 2 ^ n"
proof -
  have p: "2 powr (of_int (- int n)) = 1 / (2::real) ^ n"
    using pow2_shift [of n 0] by simp
  have "2 ^ 52 / (2::real) ^ n \<le> \<bar>x\<bar>" using lo by (simp add: divide_le_eq)
  then have a: "2 powr (of_int (- int n) + 52) \<le> \<bar>x\<bar>"
    using pow2_shift [of n 52] by simp
  have "\<bar>x\<bar> < 2 ^ 53 / (2::real) ^ n" using hi by (simp add: less_divide_eq)
  then have b: "\<bar>x\<bar> < 2 powr (of_int (- int n) + 53)"
    using pow2_shift [of n 53] by simp
  have pos: "0 < \<bar>x\<bar>" using a by (smt (verit) powr_gt_zero)
  then have nz: "x \<noteq> 0" by simp
  have "of_int (- int n) + 52 \<le> log 2 \<bar>x\<bar>" using a pos by (simp add: le_log_iff)
  moreover have "log 2 \<bar>x\<bar> < of_int (- int n) + 53" using b pos by (simp add: log_less_iff)
  ultimately have "\<lfloor>log 2 \<bar>x\<bar>\<rfloor> = - int n + 52" by (intro floor_unique) simp_all
  then have e: "of_int \<lfloor>log 2 \<bar>x\<bar>\<rfloor> - 52 = (of_int (- int n) :: real)" by simp
  have "x / 2 powr of_int (- int n) = x * 2 ^ n" unfolding p by simp
  with tie have "rne (x / 2 powr of_int (- int n)) = m" by (intro rne_tie [OF _ ev]) simp
  then show ?thesis unfolding fl_def e using nz unfolding p by simp
qed

lemma fl_sqrt_eqI:
  fixes m :: int and n :: nat
  assumes lo: "(2 ^ 52)\<^sup>2 \<le> q * (2 ^ n)\<^sup>2" and hi: "q * (2 ^ n)\<^sup>2 < (2 ^ 53)\<^sup>2"
    and nlo: "(2 * of_int m - 1)\<^sup>2 < 4 * (q * (2 ^ n)\<^sup>2)"
    and nhi: "4 * (q * (2 ^ n)\<^sup>2) < (2 * of_int m + 1)\<^sup>2"
    and mpos: "0 < m"
  shows "fl (sqrt q) = of_int m / 2 ^ n"
proof -
  let ?y = "sqrt q * 2 ^ n"
  have y: "?y = sqrt (q * (2 ^ n)\<^sup>2)"
    by (simp add: real_sqrt_mult)
  have qpos: "0 \<le> q"
  proof (rule ccontr)
    assume "\<not> 0 \<le> q"
    then have "q * (2 ^ n)\<^sup>2 \<le> 0" by (simp add: mult_le_0_iff)
    with lo show False by simp
  qed
  then have e: "\<bar>sqrt q\<bar> = sqrt q" by simp
  have a: "2 ^ 52 \<le> ?y" unfolding y using lo by (intro real_le_rsqrt)
  have b: "?y < 2 ^ 53" unfolding y using hi by (intro real_less_lsqrt) simp_all
  have "(of_int m - 1 / 2)\<^sup>2 < q * (2 ^ n)\<^sup>2"
    using nlo by (simp add: power2_eq_square algebra_simps)
  then have c: "of_int m - 1 / 2 < ?y" unfolding y by (intro real_less_rsqrt)
  have "q * (2 ^ n)\<^sup>2 < (of_int m + 1 / 2)\<^sup>2"
    using nhi by (simp add: power2_eq_square algebra_simps)
  moreover have "0 \<le> (of_int m :: real) + 1 / 2" using mpos by simp
  ultimately have d: "?y < of_int m + 1 / 2" unfolding y by (intro real_less_lsqrt)
  show ?thesis
  proof (rule fl_eqI_neg)
    show "2 ^ 52 \<le> \<bar>sqrt q\<bar> * 2 ^ n" unfolding e by (rule a)
    show "\<bar>sqrt q\<bar> * 2 ^ n < 2 ^ 53" unfolding e by (rule b)
    show "\<bar>sqrt q * 2 ^ n - of_int m\<bar> < 1 / 2" using c d by linarith
  qed
qed

text \<open>The roundings that occur when the triangle in general position is built and its
  second vertex is projected, each by its certificate.\<close>

lemma fl_step_1: "fl (- 9) = - 9"
proof -
  have "fl (- 9) = of_int (- 5066549580791808) / 2 ^ 49"
    by (rule fl_eqI_neg) simp_all
  then show ?thesis by simp
qed

lemma fl_step_2: "fl 1 = 1"
proof -
  have "fl 1 = of_int (4503599627370496) / 2 ^ 52"
    by (rule fl_eqI_neg) simp_all
  then show ?thesis by simp
qed

lemma fl_step_3: "fl (- 7) = - 7"
proof -
  have "fl (- 7) = of_int (- 7881299347898368) / 2 ^ 50"
    by (rule fl_eqI_neg) simp_all
  then show ?thesis by simp
qed

lemma fl_step_4: "fl (- 2) = - 2"
proof -
  have "fl (- 2) = of_int (- 4503599627370496) / 2 ^ 51"
    by (rule fl_eqI_neg) simp_all
  then show ?thesis by simp
qed

lemma fl_step_5: "fl 7 = 7"
proof -
  have "fl 7 = of_int (7881299347898368) / 2 ^ 50"
    by (rule fl_eqI_neg) simp_all
  then show ?thesis by simp
qed

lemma fl_step_6: "fl (- 49) = - 49"
proof -
  have "fl (- 49) = of_int (- 6896136929411072) / 2 ^ 47"
    by (rule fl_eqI_neg) simp_all
  then show ?thesis by simp
qed

lemma fl_step_7: "fl 42 = 42"
proof -
  have "fl 42 = of_int (5910974510923776) / 2 ^ 47"
    by (rule fl_eqI_neg) simp_all
  then show ?thesis by simp
qed

lemma fl_step_8: "fl 14 = 14"
proof -
  have "fl 14 = of_int (7881299347898368) / 2 ^ 49"
    by (rule fl_eqI_neg) simp_all
  then show ?thesis by simp
qed

lemma fl_step_9: "fl 63 = 63"
proof -
  have "fl 63 = of_int (8866461766385664) / 2 ^ 47"
    by (rule fl_eqI_neg) simp_all
  then show ?thesis by simp
qed

lemma fl_step_10: "fl (- 63) = - 63"
proof -
  have "fl (- 63) = of_int (- 8866461766385664) / 2 ^ 47"
    by (rule fl_eqI_neg) simp_all
  then show ?thesis by simp
qed

lemma fl_step_11: "fl (- 61) = - 61"
proof -
  have "fl (- 61) = of_int (- 8584986789675008) / 2 ^ 47"
    by (rule fl_eqI_neg) simp_all
  then show ?thesis by simp
qed

lemma fl_step_12: "fl 1764 = 1764"
proof -
  have "fl 1764 = of_int (7758154045587456) / 2 ^ 42"
    by (rule fl_eqI_neg) simp_all
  then show ?thesis by simp
qed

lemma fl_step_13: "fl 2401 = 2401"
proof -
  have "fl 2401 = of_int (5279854836580352) / 2 ^ 41"
    by (rule fl_eqI_neg) simp_all
  then show ?thesis by simp
qed

lemma fl_step_14: "fl 4165 = 4165"
proof -
  have "fl 4165 = of_int (4579465929687040) / 2 ^ 40"
    by (rule fl_eqI_neg) simp_all
  then show ?thesis by simp
qed

lemma fl_step_15: "fl 3721 = 3721"
proof -
  have "fl 3721 = of_int (8182565533908992) / 2 ^ 41"
    by (rule fl_eqI_neg) simp_all
  then show ?thesis by simp
qed

lemma fl_step_16: "fl 7886 = 7886"
proof -
  have "fl 7886 = of_int (8670748696641536) / 2 ^ 40"
    by (rule fl_eqI_neg) simp_all
  then show ?thesis by simp
qed

lemma fl_step_17: "fl (sqrt 7886) = 6248966362464919 / 70368744177664"
proof -
  have "fl (sqrt 7886) = of_int (6248966362464919) / 2 ^ 46"
    by (rule fl_sqrt_eqI) simp_all
  then show ?thesis by simp
qed

lemma fl_step_18: "fl (2955487255461888 / 6248966362464919) = 8520021091709713 / 18014398509481984"
proof -
  have "fl (2955487255461888 / 6248966362464919) = of_int (8520021091709713) / 2 ^ 54"
    by (rule fl_eqI_neg) simp_all
  then show ?thesis by simp
qed

lemma fl_step_19: "fl (- (3448068464705536 / 6248966362464919)) = - (4970012303497333 / 9007199254740992)"
proof -
  have "fl (- (3448068464705536 / 6248966362464919)) = of_int (- 4970012303497333) / 2 ^ 53"
    by (rule fl_eqI_neg) simp_all
  then show ?thesis by simp
qed

lemma fl_step_20: "fl (- (4292493394837504 / 6248966362464919)) = - (6187158173741577 / 9007199254740992)"
proof -
  have "fl (- (4292493394837504 / 6248966362464919)) = of_int (- 6187158173741577) / 2 ^ 53"
    by (rule fl_eqI_neg) simp_all
  then show ?thesis by simp
qed

lemma fl_step_21: "fl (72590759403178369738617458542369 / 324518553658426726783156020576256) = 8059193246443371 / 36028797018963968"
proof -
  have "fl (72590759403178369738617458542369 / 324518553658426726783156020576256) = of_int (8059193246443371) / 2 ^ 55"
    by (rule fl_eqI_neg) simp_all
  then show ?thesis by simp
qed

lemma fl_step_22: "fl (24701022296914866066623138112889 / 81129638414606681695789005144064) = 5484728737162851 / 18014398509481984"
proof -
  have "fl (24701022296914866066623138112889 / 81129638414606681695789005144064) = of_int (5484728737162851) / 2 ^ 54"
    by (rule fl_eqI_neg) simp_all
  then show ?thesis by simp
qed

lemma fl_step_23: "fl (19028650720769073 / 36028797018963968) = 1189290670048067 / 2251799813685248"
proof -
  have "fl (19028650720769073 / 36028797018963968) = of_int (4757162680192268) / 2 ^ 53"
    by (rule fl_eqI_neg) simp_all
  then show ?thesis by simp
qed

lemma fl_step_24: "fl (38280926266897206322467578446929 / 81129638414606681695789005144064) = 2125018287274361 / 4503599627370496"
proof -
  have "fl (38280926266897206322467578446929 / 81129638414606681695789005144064) = of_int (8500073149097444) / 2 ^ 54"
    by (rule fl_eqI_neg) simp_all
  then show ?thesis by simp
qed

lemma fl_step_25: "fl (4503599627370495 / 4503599627370496) = 4503599627370495 / 4503599627370496"
proof -
  have "fl (4503599627370495 / 4503599627370496) = of_int (9007199254740990) / 2 ^ 53"
    by (rule fl_eqI_neg) simp_all
  then show ?thesis by simp
qed

lemma fl_step_26: "fl (sqrt (4503599627370495 / 4503599627370496)) = 9007199254740991 / 9007199254740992"
proof -
  have "fl (sqrt (4503599627370495 / 4503599627370496)) = of_int (9007199254740991) / 2 ^ 53"
    by (rule fl_sqrt_eqI) simp_all
  then show ?thesis by simp
qed

lemma fl_step_27: "fl (8520021091709713 / 18014398509481982) = 4260010545854857 / 9007199254740992"
proof -
  have "fl (8520021091709713 / 18014398509481982) = of_int (8520021091709714) / 2 ^ 54"
    by (rule fl_eqI_neg) simp_all
  then show ?thesis by simp
qed

lemma fl_step_28: "fl (- (4970012303497333 / 9007199254740991)) = - (2485006151748667 / 4503599627370496)"
proof -
  have "fl (- (4970012303497333 / 9007199254740991)) = of_int (- 4970012303497334) / 2 ^ 53"
    by (rule fl_eqI_neg) simp_all
  then show ?thesis by simp
qed

lemma fl_step_29: "fl (- (6187158173741577 / 9007199254740991)) = - (3093579086870789 / 4503599627370496)"
proof -
  have "fl (- (6187158173741577 / 9007199254740991)) = of_int (- 6187158173741578) / 2 ^ 53"
    by (rule fl_eqI_neg) simp_all
  then show ?thesis by simp
qed

lemma fl_step_30: "fl (- 1) = - 1"
proof -
  have "fl (- 1) = of_int (- 4503599627370496) / 2 ^ 52"
    by (rule fl_eqI_neg) simp_all
  then show ?thesis by simp
qed

lemma fl_step_31: "fl (- (76680189825387417 / 18014398509481984)) = - (2396255932043357 / 562949953421312)"
proof -
  have "fl (- (76680189825387417 / 18014398509481984)) = of_int (- 4792511864086714) / 2 ^ 50"
    by (rule fl_eqI_neg) simp_all
  then show ?thesis by simp
qed

lemma fl_step_32: "fl (- (4970012303497333 / 9007199254740992)) = - (4970012303497333 / 9007199254740992)"
proof -
  have "fl (- (4970012303497333 / 9007199254740992)) = of_int (- 4970012303497333) / 2 ^ 53"
    by (rule fl_eqI_neg) simp_all
  then show ?thesis by simp
qed

lemma fl_step_33: "fl (- (43310107216191045 / 9007199254740992)) = - (5413763402023881 / 1125899906842624)"
proof -
  have "fl (- (43310107216191045 / 9007199254740992)) = of_int (- 5413763402023881) / 2 ^ 50"
    by (rule fl_eqI_neg) simp_all
  then show ?thesis by simp
qed

lemma fl_step_34: "fl (43310107216191039 / 9007199254740992) = 676720425252985 / 140737488355328"
proof -
  have "fl (43310107216191039 / 9007199254740992) = of_int (5413763402023880) / 2 ^ 50"
    by (rule fl_eqI_neg) simp_all
  then show ?thesis by simp
qed

lemma fl_step_35: "fl (- (1 / 1125899906842624)) = - (1 / 1125899906842624)"
proof -
  have "fl (- (1 / 1125899906842624)) = of_int (- 4503599627370496) / 2 ^ 102"
    by (rule fl_eqI_neg) simp_all
  then show ?thesis by simp
qed

lemma fl_step_36: "fl (- (8520021091709713 / 20282409603651670423947251286016)) = - (8520021091709713 / 20282409603651670423947251286016)"
proof -
  have "fl (- (8520021091709713 / 20282409603651670423947251286016)) = of_int (- 8520021091709713) / 2 ^ 104"
    by (rule fl_eqI_neg) simp_all
  then show ?thesis by simp
qed

lemma fl_step_37: "fl (4970012303497333 / 10141204801825835211973625643008) = 4970012303497333 / 10141204801825835211973625643008"
proof -
  have "fl (4970012303497333 / 10141204801825835211973625643008) = of_int (4970012303497333) / 2 ^ 103"
    by (rule fl_eqI_neg) simp_all
  then show ?thesis by simp
qed

lemma fl_step_38: "fl (6187158173741577 / 10141204801825835211973625643008) = 6187158173741577 / 10141204801825835211973625643008"
proof -
  have "fl (6187158173741577 / 10141204801825835211973625643008) = of_int (6187158173741577) / 2 ^ 103"
    by (rule fl_eqI_neg) simp_all
  then show ?thesis by simp
qed

lemma fl_step_39: "fl (- (20282409603651661903926159576303 / 20282409603651670423947251286016)) = - (2251799813685247 / 2251799813685248)"
proof -
  have "fl (- (20282409603651661903926159576303 / 20282409603651670423947251286016)) = of_int (- 9007199254740988) / 2 ^ 53"
    by (rule fl_eqI_neg) simp_all
  then show ?thesis by simp
qed

lemma fl_step_40: "fl (10141204801825830241961322145675 / 10141204801825835211973625643008) = 2251799813685247 / 2251799813685248"
proof -
  have "fl (10141204801825830241961322145675 / 10141204801825835211973625643008) = of_int (9007199254740988) / 2 ^ 53"
    by (rule fl_eqI_neg) simp_all
  then show ?thesis by simp
qed

lemma fl_step_41: "fl (- (20282409603651676611105425027593 / 10141204801825835211973625643008)) = - (4503599627370497 / 2251799813685248)"
proof -
  have "fl (- (20282409603651676611105425027593 / 10141204801825835211973625643008)) = of_int (- 4503599627370497) / 2 ^ 51"
    by (rule fl_eqI_neg) simp_all
  then show ?thesis by simp
qed

lemma fl_step_42: "fl (- (20266198323167231 / 2251799813685248)) = - 9"
proof -
  have "fl (- (20266198323167231 / 2251799813685248)) = of_int (- 5066549580791808) / 2 ^ 49"
    by (rule fl_eqI_neg) simp_all
  then show ?thesis by simp
qed

lemma fl_step_43: "fl (2251799813685247 / 2251799813685248) = 2251799813685247 / 2251799813685248"
proof -
  have "fl (2251799813685247 / 2251799813685248) = of_int (9007199254740988) / 2 ^ 53"
    by (rule fl_eqI_neg) simp_all
  then show ?thesis by simp
qed

lemma fl_step_44: "fl (- (15762598695796737 / 2251799813685248)) = - 7"
proof -
  have "fl (- (15762598695796737 / 2251799813685248)) = of_int (- 7881299347898368) / 2 ^ 50"
    by (rule fl_eqI_tie) simp_all
  then show ?thesis by simp
qed

lemma fl_step_45: "fl (- (15762598695796729 / 2251799813685248)) = - (1970324836974591 / 281474976710656)"
proof -
  have "fl (- (15762598695796729 / 2251799813685248)) = of_int (- 7881299347898364) / 2 ^ 50"
    by (rule fl_eqI_tie) simp_all
  then show ?thesis by simp
qed

lemma fl_step_46: "fl (- (11821949021847553 / 281474976710656)) = - 42"
proof -
  have "fl (- (11821949021847553 / 281474976710656)) = of_int (- 5910974510923776) / 2 ^ 47"
    by (rule fl_eqI_tie) simp_all
  then show ?thesis by simp
qed

lemma fl_step_47: "fl 49 = 49"
proof -
  have "fl 49 = of_int (6896136929411072) / 2 ^ 47"
    by (rule fl_eqI_neg) simp_all
  then show ?thesis by simp
qed

lemma fl_step_48: "fl (- (2251799813685247 / 1125899906842624)) = - (2251799813685247 / 1125899906842624)"
proof -
  have "fl (- (2251799813685247 / 1125899906842624)) = of_int (- 9007199254740988) / 2 ^ 52"
    by (rule fl_eqI_neg) simp_all
  then show ?thesis by simp
qed

lemma fl_step_49: "fl (68679894317400065 / 1125899906842624) = 61"
proof -
  have "fl (68679894317400065 / 1125899906842624) = of_int (8584986789675008) / 2 ^ 47"
    by (rule fl_eqI_neg) simp_all
  then show ?thesis by simp
qed

lemma fl_step_50: "fl (- 42) = - 42"
proof -
  have "fl (- 42) = of_int (- 5910974510923776) / 2 ^ 47"
    by (rule fl_eqI_neg) simp_all
  then show ?thesis by simp
qed

lemma fl_step_51: "fl 61 = 61"
proof -
  have "fl 61 = of_int (8584986789675008) / 2 ^ 47"
    by (rule fl_eqI_neg) simp_all
  then show ?thesis by simp
qed

lemma fl_step_52: "fl (- (1 / 281474976710656)) = - (1 / 281474976710656)"
proof -
  have "fl (- (1 / 281474976710656)) = of_int (- 4503599627370496) / 2 ^ 100"
    by (rule fl_eqI_neg) simp_all
  then show ?thesis by simp
qed

lemma fl_step_53: "fl (- (20266198323167223 / 2251799813685248)) = - (2533274790395903 / 281474976710656)"
proof -
  have "fl (- (20266198323167223 / 2251799813685248)) = of_int (- 5066549580791806) / 2 ^ 49"
    by (rule fl_eqI_neg) simp_all
  then show ?thesis by simp
qed

lemma fl_step_54: "fl (1 / 281474976710656) = 1 / 281474976710656"
proof -
  have "fl (1 / 281474976710656) = of_int (4503599627370496) / 2 ^ 100"
    by (rule fl_eqI_neg) simp_all
  then show ?thesis by simp
qed

lemma fl_step_55: "fl (- (21 / 140737488355328)) = - (21 / 140737488355328)"
proof -
  have "fl (- (21 / 140737488355328)) = of_int (- 5910974510923776) / 2 ^ 95"
    by (rule fl_eqI_neg) simp_all
  then show ?thesis by simp
qed

lemma fl_step_56: "fl (- (61 / 281474976710656)) = - (61 / 281474976710656)"
proof -
  have "fl (- (61 / 281474976710656)) = of_int (- 8584986789675008) / 2 ^ 95"
    by (rule fl_eqI_neg) simp_all
  then show ?thesis by simp
qed

lemma fl_step_57: "fl (- (103 / 281474976710656)) = - (103 / 281474976710656)"
proof -
  have "fl (- (103 / 281474976710656)) = of_int (- 7247980650299392) / 2 ^ 94"
    by (rule fl_eqI_neg) simp_all
  then show ?thesis by simp
qed

lemma fl_step_58: "fl (1001 / 1000) = 2254051613498933 / 2251799813685248"
proof -
  have "fl (1001 / 1000) = of_int (4508103226997866) / 2 ^ 52"
    by (rule fl_eqI_neg) simp_all
  then show ?thesis by simp
qed

lemmas fl_steps = fl_step_1 fl_step_2 fl_step_3 fl_step_4 fl_step_5 fl_step_6 fl_step_7 fl_step_8 fl_step_9 fl_step_10 fl_step_11 fl_step_12 fl_step_13 fl_step_14 fl_step_15 fl_step_16 fl_step_17 fl_step_18 fl_step_19 fl_step_20 fl_step_21 fl_step_22 fl_step_23 fl_step_24 fl_step_25 fl_step_26 fl_step_27 fl_step_28 fl_step_29 fl_step_30 fl_step_31 fl_step_32 fl_step_33 fl_step_34 fl_step_35 fl_step_36 fl_step_37 fl_step_38 fl_step_39 fl_step_40 fl_step_41 fl_step_42 fl_step_43 fl_step_44 fl_step_45 fl_step_46 fl_step_47 fl_step_48 fl_step_49 fl_step_50 fl_step_51 fl_step_52 fl_step_53 fl_step_54 fl_step_55 fl_step_56 fl_step_57 fl_step_58

lemma tilted_eval:
  "snd (project_new_point_r fl tilted_mesh (- 1, 1, - 2))
     = Inr (Vec (- (2251799813685247 / 2251799813685248), 2251799813685247 / 2251799813685248,
                 - (4503599627370497 / 2251799813685248)), - 1)"
  by (simp add: project_new_point_r_def project_from_r_def tilted_mesh_def tilted_verts_def tilted_conn_def
      tilted_normal_def dist2_def defaultdict_get_def unit_vec_r_def linalg_norm_r_def pre_project_r_def
      plane_dist_r_def tri_project_r_def in_triangle_r_def argsort_abs_def Let_def fl_zero fl_steps)

lemma tilted_built: "Mesh_init_r fl tilted_verts tilted_conn = Inr tilted_mesh"
proof -
  have "append_tri (append_tri (append_tri Map.empty 0 0) 1 0) 2 0
      = map_of [(0, [0]), (Suc 0, [0]), (2, [0])]"
    by (rule ext) (simp add: append_tri_def defaultdict_get_def)
  then show ?thesis
    by (simp add: Mesh_init_r_def tilted_verts_def tilted_conn_def tilted_mesh_def tilted_normal_def
        raw_normal_r_def unit_vec_r_def linalg_norm_r_def fl_zero fl_steps)
qed

text \<open>
  C8 fails in the arithmetic of the source. On the mesh of the vertices \<open>(8,0,5)\<close>,
  \<open>(-1,1,-2)\<close>, \<open>(6,7,-2)\<close> and the triangle \<open>(0,1,2)\<close>, as the constructor builds it in
  binary64, vertex 1 is the nearest vertex to its own position, it has one incident
  triangle, that triangle is non-degenerate and the summed normal is non-zero. The plane
  distance of the vertex to its own triangle is then \<open>- 1 / 2 ^ 50\<close> and not 0, the
  projected point misses the vertex by less than \<^verbatim>\<open>1e-15\<close>, \<^verbatim>\<open>sign_t\<close> is
  \<open>- 103 / 2 ^ 48\<close> and not 0, and the call returns that point with the index \<open>-1\<close>, not
  with triangle 0.
\<close>

theorem corner_rejected_binary64:
  "Mesh_init_r fl tilted_verts tilted_conn = Inr tilted_mesh
   \<and> kd_query (tree tilted_mesh) (verts tilted_mesh ! 1) = 1
   \<and> tris_of (node_to_tri tilted_mesh) 1 = [0]
   \<and> raw_normal_r fl (verts tilted_mesh) (connectivity tilted_mesh ! 0) = (42, - 49, - 61)
   \<and> unit_vec_r fl (np_sum_r fl [tilted_normal]) \<noteq> Nan
   \<and> plane_dist_r fl (verts tilted_mesh ! 1) (verts tilted_mesh ! 0) tilted_normal
       = - (1 / 1125899906842624)
   \<and> tri_project_r fl (verts tilted_mesh ! 1) (- (1 / 1125899906842624)) tilted_normal
       = (- (2251799813685247 / 2251799813685248), 2251799813685247 / 2251799813685248,
          - (4503599627370497 / 2251799813685248))
   \<and> np_dot_r fl
         (np_cross_r fl (vsub_r fl (verts tilted_mesh ! 1) (verts tilted_mesh ! 0))
            (vsub_r fl (- (2251799813685247 / 2251799813685248), 2251799813685247 / 2251799813685248,
                        - (4503599627370497 / 2251799813685248)) (verts tilted_mesh ! 0)))
         (vneg (np_cross_r fl (vsub_r fl (verts tilted_mesh ! 2) (verts tilted_mesh ! 0))
                  (vsub_r fl (verts tilted_mesh ! 1) (verts tilted_mesh ! 0))))
       = - (103 / 281474976710656)
   \<and> snd (project_new_point_r fl tilted_mesh (verts tilted_mesh ! 1))
       = Inr (Vec (- (2251799813685247 / 2251799813685248), 2251799813685247 / 2251799813685248,
                   - (4503599627370497 / 2251799813685248)), - 1)"
proof -
  have k: "kd_query (tree tilted_mesh) (verts tilted_mesh ! 1) = 1"
    by (simp add: tilted_mesh_def tilted_verts_def dist2_def)
  have t: "tris_of (node_to_tri tilted_mesh) 1 = [0]"
    by (simp add: tilted_mesh_def tris_of_def)
  have n: "raw_normal_r fl (verts tilted_mesh) (connectivity tilted_mesh ! 0) = (42, - 49, - 61)"
    by (simp add: tilted_mesh_def tilted_verts_def tilted_conn_def raw_normal_r_def fl_zero fl_steps)
  have u: "unit_vec_r fl (np_sum_r fl [tilted_normal]) \<noteq> Nan"
    by (simp add: tilted_normal_def unit_vec_r_def linalg_norm_r_def fl_zero fl_steps)
  have d: "plane_dist_r fl (verts tilted_mesh ! 1) (verts tilted_mesh ! 0) tilted_normal
       = - (1 / 1125899906842624)"
    by (simp add: tilted_mesh_def tilted_verts_def tilted_normal_def plane_dist_r_def fl_zero fl_steps)
  have j: "tri_project_r fl (verts tilted_mesh ! 1) (- (1 / 1125899906842624)) tilted_normal
       = (- (2251799813685247 / 2251799813685248), 2251799813685247 / 2251799813685248,
          - (4503599627370497 / 2251799813685248))"
    by (simp add: tilted_mesh_def tilted_verts_def tilted_normal_def tri_project_r_def fl_zero fl_steps)
  have s: "np_dot_r fl
         (np_cross_r fl (vsub_r fl (verts tilted_mesh ! 1) (verts tilted_mesh ! 0))
            (vsub_r fl (- (2251799813685247 / 2251799813685248), 2251799813685247 / 2251799813685248,
                        - (4503599627370497 / 2251799813685248)) (verts tilted_mesh ! 0)))
         (vneg (np_cross_r fl (vsub_r fl (verts tilted_mesh ! 2) (verts tilted_mesh ! 0))
                  (vsub_r fl (verts tilted_mesh ! 1) (verts tilted_mesh ! 0))))
       = - (103 / 281474976710656)"
    by (simp add: tilted_mesh_def tilted_verts_def fl_zero fl_steps)
  have p: "verts tilted_mesh ! 1 = (- 1, 1, - 2)"
    by (simp add: tilted_mesh_def tilted_verts_def)
  have e: "snd (project_new_point_r fl tilted_mesh (verts tilted_mesh ! 1))
       = Inr (Vec (- (2251799813685247 / 2251799813685248), 2251799813685247 / 2251799813685248,
                   - (4503599627370497 / 2251799813685248)), - 1)"
    unfolding p by (rule tilted_eval)
  from tilted_built k t n u d j s e show ?thesis
    by (intro conjI)
qed

text \<open>In exact arithmetic the same query returns the vertex itself with triangle 0.\<close>

lemma tilted_exact:
  "\<exists>m. Mesh_init tilted_verts tilted_conn = Inr m
     \<and> snd (project_new_point m (- 1, 1, - 2)) = Inr (Vec (- 1, 1, - 2), 0)"
proof -
  have "indices_ok tilted_verts tilted_conn"
    by (simp add: indices_ok_def tilted_verts_def tilted_conn_def)
  from Mesh_init_succeeds [OF this] obtain m where b: "Mesh_init tilted_verts tilted_conn = Inr m"
    by blast
  have f: "verts m = tilted_verts" "connectivity m = tilted_conn" "tree m = tilted_verts"
    using b by (simp_all add: Mesh_init_fields)
  have adj: "tris_of (node_to_tri m) 1 = [0]"
    using Mesh_init_adjacency [OF b, of 1] by (simp add: tilted_conn_def)
  have near: "kd_query (tree m) (verts m ! 1) = 1"
    by (simp add: f tilted_verts_def dist2_def)
  have raw: "raw_normal tilted_verts (tilted_conn ! 0) = (42, - 49, - 61)"
    by (simp add: tilted_verts_def tilted_conn_def raw_normal_def)
  have nd: "list_all (\<lambda>t. raw_normal (verts m) (connectivity m ! t) \<noteq> (0, 0, 0))
      (tris_of (node_to_tri m) 1)"
    unfolding adj f using raw by simp
  obtain w where w: "unit_vec (42, - 49, - 61) = Vec w"
    by (cases "unit_vec (42, - 49, - 61)") (simp_all add: unit_vec_cases)
  have nm: "normals m ! 0 = Vec w"
    using Mesh_init_normals(2) [OF b, of 0] raw w by (simp add: tilted_conn_def)
  have uw: "unit_vec w \<noteq> Nan"
    using unit_vec_norm [OF w] by (auto simp: unit_vec_def)
  have sw: "np_sum [w] = w" by (cases w) simp
  have vn: "vertex_normal m (tris_of (node_to_tri m) 1) \<noteq> Nan"
    unfolding adj vertex_normal_def using nm uw sw by simp
  from vertex_self_projection_exact [OF b near _ nd vn] adj f
  have "snd (project_new_point m (- 1, 1, - 2)) = Inr (Vec (- 1, 1, - 2), 0)"
    by (simp add: tilted_verts_def)
  with b show ?thesis by blast
qed

end
